theory Spec2Isabelle
  imports Main
begin

section \<open>Calendar dates (\<open>datetime.date\<close>)\<close>

text \<open>
  A \<open>datetime.date\<close> is a triple of year, month and day. Python only ever builds triples
  that name a real day of the proleptic Gregorian calendar with a year in 1..9999;
  \<open>valid_date\<close> states that, and the theorems below assume it of the dates they are given.
  Comparison of dates is the lexicographic comparison of the triples.
\<close>

datatype date = Date (year: nat) (month: nat) (day: nat)

definition is_leap :: "nat \<Rightarrow> bool" where
  "is_leap y = (y mod 4 = 0 \<and> (y mod 100 \<noteq> 0 \<or> y mod 400 = 0))"

definition days_in_month :: "nat \<Rightarrow> nat \<Rightarrow> nat" where
  "days_in_month y m =
     (if m = 2 then (if is_leap y then 29 else 28)
      else if m = 4 \<or> m = 6 \<or> m = 9 \<or> m = 11 then 30
      else if 1 \<le> m \<and> m \<le> 12 then 31
      else 0)"

definition valid_date :: "date \<Rightarrow> bool" where
  "valid_date d =
     (1 \<le> year d \<and> year d \<le> 9999 \<and> 1 \<le> month d \<and> month d \<le> 12 \<and>
      1 \<le> day d \<and> day d \<le> days_in_month (year d) (month d))"

definition date_lt :: "date \<Rightarrow> date \<Rightarrow> bool" where
  "date_lt a b =
     (year a < year b \<or>
      (year a = year b \<and> (month a < month b \<or> (month a = month b \<and> day a < day b))))"

definition date_le :: "date \<Rightarrow> date \<Rightarrow> bool" where
  "date_le a b = (a = b \<or> date_lt a b)"

text \<open>
  \<open>d + timedelta(days=1)\<close>: the day after \<open>d\<close>. Python raises OverflowError past
  9999-12-31; the rollover loop only adds a day to a date strictly before today, so that
  case cannot arise there.
\<close>

definition next_day :: "date \<Rightarrow> date" where
  "next_day d =
     (if day d < days_in_month (year d) (month d) then Date (year d) (month d) (day d + 1)
      else if month d < 12 then Date (year d) (month d + 1) 1
      else Date (year d + 1) 1 1)"

subsection \<open>\<open>isoformat\<close> and \<open>fromisoformat\<close>\<close>

text \<open>A decimal digit as a character, and the digit a character stands for (\<open>c - '0'\<close>).\<close>

definition digit_char :: "nat \<Rightarrow> char" where
  "digit_char n = ''0123456789'' ! (n mod 10)"

definition digit_val :: "char \<Rightarrow> nat option" where
  "digit_val c = (let k = (of_char c :: nat) in if 48 \<le> k \<and> k \<le> 57 then Some (k - 48) else None)"

definition pad2 :: "nat \<Rightarrow> string" where
  "pad2 n = [digit_char (n div 10 mod 10), digit_char (n mod 10)]"

definition pad4 :: "nat \<Rightarrow> string" where
  "pad4 n = [digit_char (n div 1000 mod 10), digit_char (n div 100 mod 10),
             digit_char (n div 10 mod 10), digit_char (n mod 10)]"

text \<open>\<open>date.isoformat()\<close>: \<open>"%04d-%02d-%02d"\<close> of year, month and day.\<close>

definition isoformat :: "date \<Rightarrow> string" where
  "isoformat d = pad4 (year d) @ ''-'' @ pad2 (month d) @ ''-'' @ pad2 (day d)"

fun parse_digits :: "string \<Rightarrow> nat option" where
  "parse_digits [] = Some 0"
| "parse_digits (c # cs) =
     (case digit_val c of
        None \<Rightarrow> None
      | Some v \<Rightarrow> (case parse_digits cs of
                     None \<Rightarrow> None
                   | Some r \<Rightarrow> Some (v * 10 ^ length cs + r)))"

text \<open>
  The extended format \<open>YYYY-MM-DD\<close>: exactly ten bytes of ASCII digits and hyphens that
  name a valid date. It is the only form \<open>isoformat\<close> writes, and every release of the
  standard library parses it to that date. \<open>None\<close> stands for ValueError.
\<close>

definition strict_fromisoformat :: "string \<Rightarrow> date option" where
  "strict_fromisoformat s =
     (if length s \<noteq> 10 then None
      else if s ! 4 \<noteq> CHR ''-'' \<or> s ! 7 \<noteq> CHR ''-'' then None
      else (case (parse_digits (take 4 s), parse_digits (take 2 (drop 5 s)),
                  parse_digits (take 2 (drop 8 s))) of
              (Some y, Some m, Some d) \<Rightarrow>
                 (if valid_date (Date y m d) then Some (Date y m d) else None)
            | _ \<Rightarrow> None))"

subsection \<open>Ordinals and the ISO calendar\<close>

text \<open>
  \<open>toordinal\<close>, \<open>weekday\<close> and \<open>isocalendar\<close> follow the standard library: day 1 is
  0001-01-01, a Monday has weekday 0, and ISO week 1 of a year is the week (Monday to
  Sunday) that holds the year's first Thursday.
\<close>

definition days_before_year :: "nat \<Rightarrow> int" where
  "days_before_year y = (let z = int y - 1 in z * 365 + z div 4 - z div 100 + z div 400)"

definition days_before_month :: "nat \<Rightarrow> nat \<Rightarrow> int" where
  "days_before_month y m =
     ([0, 0, 31, 59, 90, 120, 151, 181, 212, 243, 273, 304, 334] ! (if m \<le> 12 then m else 0))
     + (if m > 2 \<and> is_leap y then 1 else 0)"

definition toordinal :: "date \<Rightarrow> int" where
  "toordinal d = days_before_year (year d) + days_before_month (year d) (month d) + int (day d)"

definition isoweek1monday :: "nat \<Rightarrow> int" where
  "isoweek1monday y =
     (let firstday = toordinal (Date y 1 1);
          firstweekday = (firstday + 6) mod 7;
          week1monday = firstday - firstweekday
      in if firstweekday > 3 then week1monday + 7 else week1monday)"

definition isocalendar :: "date \<Rightarrow> int \<times> int \<times> int" where
  "isocalendar d =
     (let y = year d;
          t = toordinal d;
          week = (t - isoweek1monday y) div 7;
          wd = (t - isoweek1monday y) mod 7
      in if week < 0 then
           (int y - 1, (t - isoweek1monday (y - 1)) div 7 + 1,
            (t - isoweek1monday (y - 1)) mod 7 + 1)
         else if week \<ge> 52 \<and> t \<ge> isoweek1monday (y + 1) then (int y + 1, 1, wd + 1)
         else (int y, week + 1, wd + 1))"

section \<open>Python values and the library\<close>

text \<open>
  A value of a parsed request body: JSON null, a boolean, an integer or a string.
  (Arrays, objects and floating-point numbers inside a body are not modelled.)
\<close>

datatype pyval = PNone | PBool bool | PInt int | PStr string

text \<open>
  The exceptions that can escape a route. \<open>OverflowError\<close> is what the database driver
  raises for an integer that does not fit 64 bits.
\<close>

datatype exn = TypeError | ValueError | AttributeError | IntegrityError | OverflowError

text \<open>Python truthiness, as used by \<open>not x\<close> and \<open>x or y\<close>.\<close>

fun truthy :: "pyval \<Rightarrow> bool" where
  "truthy PNone = False"
| "truthy (PBool b) = b"
| "truthy (PInt n) = (n \<noteq> 0)"
| "truthy (PStr s) = (s \<noteq> [])"

text \<open>
  Three library functions accept different sets of strings in different releases of the
  interpreter and of the database: \<open>date.fromisoformat\<close> (the basic and the week formats
  came later than the extended one), \<open>int\<close> of a string (white space, underscores, digits
  outside ASCII, a limit on the length), and the database's reading of a text key as the
  number it spells. They are taken as they come, in a \<open>runtime\<close> that every route
  receives; \<open>None\<close> is the function's ValueError, or a text that spells no integer.
\<close>

record runtime =
  fromisoformat :: "string \<Rightarrow> date option"
  int_of_str :: "string \<Rightarrow> int option"
  key_of_text :: "string \<Rightarrow> int option"

text \<open>
  What is used of \<open>date.fromisoformat\<close>, and holds of it in every release: the
  result is a date, and what \<open>isoformat\<close> wrote is read back.
\<close>

definition date_parser :: "(string \<Rightarrow> date option) \<Rightarrow> bool" where
  "date_parser p =
     ((\<forall>s d. p s = Some d \<longrightarrow> valid_date d) \<and>
      (\<forall>d. valid_date d \<longrightarrow> p (isoformat d) = Some d))"

text \<open>The built-in \<open>int(x)\<close>: TypeError on \<open>None\<close>, ValueError on a string that spells none.\<close>

fun py_int :: "runtime \<Rightarrow> pyval \<Rightarrow> exn + int" where
  "py_int rt PNone = Inl TypeError"
| "py_int rt (PBool b) = Inr (if b then 1 else 0)"
| "py_int rt (PInt n) = Inr n"
| "py_int rt (PStr s) = (case int_of_str rt s of None \<Rightarrow> Inl ValueError | Some n \<Rightarrow> Inr n)"

text \<open>\<open>str(n)\<close> of an integer.\<close>

fun str_nat :: "nat \<Rightarrow> string" where
  "str_nat n = (if n < 10 then [digit_char n] else str_nat (n div 10) @ [digit_char (n mod 10)])"

definition str_int :: "int \<Rightarrow> string" where
  "str_int i = (if i < 0 then CHR ''-'' # str_nat (nat (- i)) else str_nat (nat i))"

section \<open>Requests\<close>

text \<open>
  What the expression \<open>request.json\<close> yields in a route: the parsed JSON object; \<open>None\<close>
  (a body that is JSON null, or in older releases of the framework a request without
  JSON); another JSON value, of which only the truthiness matters; or an HTTP error that
  the framework raises itself and answers with that status (a body that is not JSON).
\<close>

datatype json_body =
    JsonObject "(string \<times> pyval) list"
  | JsonNone
  | JsonOther bool
  | JsonAbort nat

text \<open>A request: \<open>request.json\<close> and the fields of \<open>request.form\<close>, which are strings.\<close>

record request =
  json :: json_body
  form :: "(string \<times> string) list"

definition form_data :: "request \<Rightarrow> (string \<times> pyval) list" where
  "form_data r = map (\<lambda>(k, v). (k, PStr v)) (form r)"

text \<open>\<open>data.get(k, default)\<close> and \<open>data.get(k)\<close>.\<close>

definition get_default :: "(string \<times> pyval) list \<Rightarrow> string \<Rightarrow> pyval \<Rightarrow> pyval" where
  "get_default data k dflt = (case map_of data k of None \<Rightarrow> dflt | Some v \<Rightarrow> v)"

definition get :: "(string \<times> pyval) list \<Rightarrow> string \<Rightarrow> pyval" where
  "get data k = get_default data k PNone"

section \<open>The store: settings and tasks\<close>

type_synonym datetime = nat

text \<open>
  A row of the \<open>Task\<close> table, as the application writes it. \<open>title\<close> is a NOT NULL text
  column, \<open>description\<close> a nullable one, \<open>column_index\<close> a 64-bit integer column.
\<close>

record task =
  task_id :: int
  title :: string
  description :: "string option"
  column_index :: int
  created_at :: datetime
  task_date :: date
  archived :: bool
  archived_at :: "datetime option"

text \<open>
  The database: the \<open>Setting\<close> table as a map from the unique key to the nullable value,
  and the \<open>Task\<close> table as the list of its rows.
\<close>

record store =
  setting_table :: "string \<rightharpoonup> string option"
  task_table :: "task list"

text \<open>
  The clock, as one request reads it: \<open>date.today()\<close> and \<open>datetime.utcnow()\<close>.
\<close>

record clock =
  today :: date
  utcnow :: datetime

definition Setting_get :: "store \<Rightarrow> string \<Rightarrow> string option" where
  "Setting_get st k = (case setting_table st k of None \<Rightarrow> None | Some v \<Rightarrow> v)"

definition Setting_set :: "string \<Rightarrow> string \<Rightarrow> store \<Rightarrow> store" where
  "Setting_set k v st = st\<lparr>setting_table := (setting_table st)(k \<mapsto> Some v)\<rparr>"

subsection \<open>What the database does with bound values\<close>

definition sqlite_int :: "int \<Rightarrow> bool" where
  "sqlite_int n = (- (2 ^ 63) \<le> n \<and> n < 2 ^ 63)"

text \<open>An integer outside 64 bits cannot be bound to a statement: the driver raises.\<close>

fun bindable :: "pyval \<Rightarrow> bool" where
  "bindable (PInt n) = sqlite_int n"
| "bindable _ = True"

text \<open>
  A value written to a text column is stored as text (an integer by its decimal digits,
  a boolean as the integer it is); \<open>None\<close> is NULL.
\<close>

fun text_of :: "pyval \<Rightarrow> string option" where
  "text_of PNone = None"
| "text_of (PBool b) = Some (if b then ''1'' else ''0'')"
| "text_of (PInt n) = Some (str_int n)"
| "text_of (PStr s) = Some s"

text \<open>
  Comparison of a bound key with the integer primary key: an integer with itself, a
  boolean as the integer it is, a text as the number the database reads it as; NULL
  matches no row.
\<close>

fun key_matches :: "runtime \<Rightarrow> pyval \<Rightarrow> int \<Rightarrow> bool" where
  "key_matches rt PNone i = False"
| "key_matches rt (PBool b) i = (i = (if b then 1 else 0))"
| "key_matches rt (PInt n) i = (n = i)"
| "key_matches rt (PStr s) i = (key_of_text rt s = Some i)"

text \<open>\<open>Task.query.get(k)\<close>.\<close>

definition Task_query_get :: "runtime \<Rightarrow> pyval \<Rightarrow> task list \<Rightarrow> exn + task option" where
  "Task_query_get rt k ts =
     (if \<not> bindable k then Inl OverflowError
      else Inr (find (\<lambda>t. key_matches rt k (task_id t)) ts))"

text \<open>The row id of a new row: one more than the largest in the table (ids start at 1).\<close>

definition new_id :: "task list \<Rightarrow> int" where
  "new_id ts = foldr (\<lambda>t m. max (task_id t) m) ts 0 + 1"

definition order_by_id :: "task list \<Rightarrow> task list" where
  "order_by_id ts = sort_key task_id ts"

section \<open>Rollover and archiving\<close>

text \<open>
  One pass of the loop body for the day \<open>d\<close>: every task of that day that is not yet
  archived is archived, with the time of archiving.
\<close>

definition archive_day_tasks :: "date \<Rightarrow> datetime \<Rightarrow> task list \<Rightarrow> task list" where
  "archive_day_tasks d now ts =
     map (\<lambda>t. if task_date t = d \<and> \<not> archived t
               then t\<lparr>archived := True, archived_at := Some now\<rparr> else t) ts"

text \<open>\<open>while day < today: ...; day = day + timedelta(days=1)\<close>\<close>

function archive_loop :: "date \<Rightarrow> date \<Rightarrow> datetime \<Rightarrow> task list \<Rightarrow> task list" where
  "archive_loop d td now ts =
     (if date_lt d td then archive_loop (next_day d) td now (archive_day_tasks d now ts)
      else ts)"
  by pat_completeness auto

termination archive_loop
proof (relation "measures [\<lambda>(d, td, now, ts). Suc (year td) - year d,
                           \<lambda>(d, td, now, ts). 12 - month d,
                           \<lambda>(d, td, now, ts). 31 - day d]", goal_cases)
  case 1
  show ?case by simp
next
  case (2 d td now ts)
  have "days_in_month (year d) (month d) \<le> 31" by (simp add: days_in_month_def)
  with 2 show ?case
    by (auto simp: next_day_def date_lt_def)
qed

declare archive_loop.simps [simp del]

definition check_rollover_and_archive :: "runtime \<Rightarrow> clock \<Rightarrow> store \<Rightarrow> store" where
  "check_rollover_and_archive rt c st =
     (case Setting_get st ''last_active_date'' of
        None \<Rightarrow> Setting_set ''last_active_date'' (isoformat (today c)) st
      | Some last_str \<Rightarrow>
          if last_str = [] then Setting_set ''last_active_date'' (isoformat (today c)) st
          else (case fromisoformat rt last_str of
                  None \<Rightarrow> Setting_set ''last_active_date'' (isoformat (today c)) st
                | Some last_date \<Rightarrow>
                    if \<not> date_lt last_date (today c) then st
                    else Setting_set ''last_active_date'' (isoformat (today c))
                           (st\<lparr>task_table :=
                                 archive_loop last_date (today c) (utcnow c) (task_table st)\<rparr>)))"

section \<open>Routes\<close>

text \<open>\<open>Task.to_dict()\<close>; a missing or empty description is rendered as the empty string.\<close>

record task_dict =
  d_id :: int
  d_title :: string
  d_description :: string
  d_column_index :: int
  d_created_at :: datetime
  d_task_date :: string
  d_archived :: bool

definition to_dict :: "task \<Rightarrow> task_dict" where
  "to_dict t =
     \<lparr>d_id = task_id t, d_title = title t,
      d_description = (case description t of None \<Rightarrow> [] | Some s \<Rightarrow> s),
      d_column_index = column_index t, d_created_at = created_at t,
      d_task_date = isoformat (task_date t), d_archived = archived t\<rparr>"

text \<open>
  What a route hands back: a JSON body (with the status of an error), the arguments of a
  rendered template, or \<open>abort(code)\<close>, which the framework answers with that status.
\<close>

datatype response =
    TaskJson task_dict
  | OkJson
  | ErrorJson string nat
  | IndexPage "string list" "int \<rightharpoonup> task list" string
  | ArchiveIndexPage "string list"
  | ArchiveDayPage "task list" string
  | ArchiveListPage "task list" string
  | Abort nat

text \<open>
  The result of a request: the response, or the exception that escapes the route, and
  the store as the request leaves it.
\<close>

type_synonym outcome = "(exn + response) \<times> store"

text \<open>How reading the request's data ends a route before its own checks.\<close>

datatype failure = Raise exn | Respond response

fun early :: "failure \<Rightarrow> store \<Rightarrow> outcome" where
  "early (Raise e) st = (Inl e, st)"
| "early (Respond resp) st = (Inr resp, st)"

text \<open>
  \<open>data = request.json\<close>, to the first \<open>data.get\<close>: only an object has \<open>get\<close>.
\<close>

definition json_data :: "request \<Rightarrow> failure + (string \<times> pyval) list" where
  "json_data r =
     (case json r of
        JsonObject b \<Rightarrow> Inr b
      | JsonNone \<Rightarrow> Inl (Raise AttributeError)
      | JsonOther t \<Rightarrow> Inl (Raise AttributeError)
      | JsonAbort code \<Rightarrow> Inl (Respond (Abort code)))"

text \<open>
  \<open>data = request.json or request.form\<close>, to the first \<open>data.get\<close>: an empty object,
  \<open>None\<close> and every other falsy value give the form.
\<close>

definition json_or_form :: "request \<Rightarrow> failure + (string \<times> pyval) list" where
  "json_or_form r =
     (case json r of
        JsonObject b \<Rightarrow> Inr (if b = [] then form_data r else b)
      | JsonNone \<Rightarrow> Inr (form_data r)
      | JsonOther t \<Rightarrow> if t then Inl (Raise AttributeError) else Inr (form_data r)
      | JsonAbort code \<Rightarrow> Inl (Respond (Abort code)))"

fun split_on :: "char \<Rightarrow> string \<Rightarrow> string list" where
  "split_on c [] = [[]]"
| "split_on c (x # xs) =
     (if x = c then [] # split_on c xs
      else (case split_on c xs of [] \<Rightarrow> [[x]] | w # ws \<Rightarrow> (x # w) # ws))"

text \<open>\<open>while len(cols) < 5: cols.append(f'Column {len(cols)+1}')\<close>\<close>

function pad_cols :: "string list \<Rightarrow> string list" where
  "pad_cols cols =
     (if length cols < 5 then pad_cols (cols @ [''Column '' @ str_nat (length cols + 1)])
      else cols)"
  by pat_completeness auto
termination
  by (relation "measure (\<lambda>cols. 5 - length cols)") auto

declare pad_cols.simps [simp del]

definition columns :: "store \<Rightarrow> string list" where
  "columns st =
     (let cols_raw = (case Setting_get st ''columns'' of None \<Rightarrow> [] | Some s \<Rightarrow> s);
          cols = filter (\<lambda>c. c \<noteq> []) (split_on CHR '','' cols_raw);
          cols = (if length cols > 5 then take 5 cols else cols)
      in pad_cols cols)"

text \<open>\<open>tasks_by_col.setdefault(t.column_index, []).append(t)\<close>\<close>

definition setdefault_append :: "(int \<rightharpoonup> task list) \<Rightarrow> task \<Rightarrow> (int \<rightharpoonup> task list)" where
  "setdefault_append m t =
     m(column_index t \<mapsto> (case m (column_index t) of None \<Rightarrow> [] | Some l \<Rightarrow> l) @ [t])"

text \<open>\<open>{i: [] for i in range(n)}\<close>, then every task appended under its column.\<close>

definition group_by_col :: "nat \<Rightarrow> task list \<Rightarrow> (int \<rightharpoonup> task list)" where
  "group_by_col n ts =
     foldl setdefault_append (\<lambda>i. if 0 \<le> i \<and> i < int n then Some [] else None) ts"

definition index :: "runtime \<Rightarrow> clock \<Rightarrow> store \<Rightarrow> outcome" where
  "index rt c st =
     (let st1 = check_rollover_and_archive rt c st;
          cols = columns st1;
          ts = order_by_id (filter (\<lambda>t. task_date t = today c) (task_table st1))
      in (Inr (IndexPage cols (group_by_col (length cols) ts) (isoformat (today c))), st1))"

definition add_task :: "runtime \<Rightarrow> clock \<Rightarrow> request \<Rightarrow> store \<Rightarrow> outcome" where
  "add_task rt c r st =
     (let st1 = check_rollover_and_archive rt c st
      in case json_or_form r of
           Inl f \<Rightarrow> early f st1
         | Inr data \<Rightarrow>
             (let ttl = get data ''title'';
                  descr = get_default data ''description'' (PStr [])
              in case py_int rt (get_default data ''column_index'' (PInt 0)) of
                   Inl e \<Rightarrow> (Inl e, st1)
                 | Inr col \<Rightarrow>
                     if \<not> truthy ttl then (Inr (ErrorJson ''title required'' 400), st1)
                     else if \<not> (bindable ttl \<and> bindable descr \<and> sqlite_int col)
                       then (Inl OverflowError, st1)
                     else (case text_of ttl of
                             None \<Rightarrow> (Inl IntegrityError, st1)
                           | Some s \<Rightarrow>
                               let t = \<lparr>task_id = new_id (task_table st1), title = s,
                                        description = text_of descr, column_index = col,
                                        created_at = utcnow c, task_date = today c,
                                        archived = False, archived_at = None\<rparr>
                               in (Inr (TaskJson (to_dict t)),
                                   st1\<lparr>task_table := task_table st1 @ [t]\<rparr>))))"

definition update_task :: "task \<Rightarrow> task list \<Rightarrow> task list" where
  "update_task t' ts = map (\<lambda>x. if task_id x = task_id t' then t' else x) ts"

definition move_task :: "runtime \<Rightarrow> clock \<Rightarrow> request \<Rightarrow> store \<Rightarrow> outcome" where
  "move_task rt c r st =
     (let st1 = check_rollover_and_archive rt c st
      in case json_data r of
           Inl f \<Rightarrow> early f st1
         | Inr data \<Rightarrow>
             (case py_int rt (get data ''column_index'') of
                Inl e \<Rightarrow> (Inl e, st1)
              | Inr new_col \<Rightarrow>
                  (case Task_query_get rt (get data ''id'') (task_table st1) of
                     Inl e \<Rightarrow> (Inl e, st1)
                   | Inr None \<Rightarrow> (Inr (ErrorJson ''task not found'' 404), st1)
                   | Inr (Some t) \<Rightarrow>
                       if task_date t \<noteq> today c \<or> archived t
                         then (Inr (ErrorJson ''task is archived or not editable'' 400), st1)
                       else if \<not> sqlite_int new_col then (Inl OverflowError, st1)
                       else (Inr OkJson,
                             st1\<lparr>task_table :=
                                   update_task (t\<lparr>column_index := new_col\<rparr>) (task_table st1)\<rparr>))))"

definition edit_task :: "runtime \<Rightarrow> clock \<Rightarrow> request \<Rightarrow> store \<Rightarrow> outcome" where
  "edit_task rt c r st =
     (let st1 = check_rollover_and_archive rt c st
      in case json_or_form r of
           Inl f \<Rightarrow> early f st1
         | Inr data \<Rightarrow>
             (case Task_query_get rt (get data ''id'') (task_table st1) of
                Inl e \<Rightarrow> (Inl e, st1)
              | Inr None \<Rightarrow> (Inr (ErrorJson ''task not found'' 404), st1)
              | Inr (Some t) \<Rightarrow>
                  if task_date t \<noteq> today c \<or> archived t
                    then (Inr (ErrorJson ''not editable'' 400), st1)
                  else
                    (let ttl = get_default data ''title'' (PStr (title t));
                         descr = get_default data ''description''
                                   (case description t of None \<Rightarrow> PNone | Some s \<Rightarrow> PStr s)
                     in if \<not> (bindable ttl \<and> bindable descr) then (Inl OverflowError, st1)
                        else (case text_of ttl of
                                None \<Rightarrow> (Inl IntegrityError, st1)
                              | Some s \<Rightarrow>
                                  let t' = t\<lparr>title := s, description := text_of descr\<rparr>
                                  in (Inr (TaskJson (to_dict t')),
                                      st1\<lparr>task_table := update_task t' (task_table st1)\<rparr>)))))"

definition delete_task :: "runtime \<Rightarrow> clock \<Rightarrow> request \<Rightarrow> store \<Rightarrow> outcome" where
  "delete_task rt c r st =
     (let st1 = check_rollover_and_archive rt c st
      in case json_or_form r of
           Inl f \<Rightarrow> early f st1
         | Inr data \<Rightarrow>
             (case Task_query_get rt (get data ''id'') (task_table st1) of
                Inl e \<Rightarrow> (Inl e, st1)
              | Inr None \<Rightarrow> (Inr (ErrorJson ''task not found'' 404), st1)
              | Inr (Some t) \<Rightarrow>
                  if task_date t \<noteq> today c \<or> archived t
                    then (Inr (ErrorJson ''not deletable'' 400), st1)
                  else (Inr OkJson,
                        st1\<lparr>task_table :=
                              filter (\<lambda>x. task_id x \<noteq> task_id t) (task_table st1)\<rparr>)))"

fun insert_desc :: "date \<Rightarrow> date list \<Rightarrow> date list" where
  "insert_desc d [] = [d]"
| "insert_desc d (x # xs) = (if date_lt x d then d # x # xs else x # insert_desc d xs)"

definition archive_index :: "runtime \<Rightarrow> clock \<Rightarrow> store \<Rightarrow> outcome" where
  "archive_index rt c st =
     (let st1 = check_rollover_and_archive rt c st;
          dates = foldr insert_desc (remdups (map task_date (filter archived (task_table st1)))) []
      in (Inr (ArchiveIndexPage (map isoformat dates)), st1))"

definition archive_day :: "runtime \<Rightarrow> clock \<Rightarrow> string \<Rightarrow> store \<Rightarrow> outcome" where
  "archive_day rt c dy st =
     (let st1 = check_rollover_and_archive rt c st
      in case fromisoformat rt dy of
           None \<Rightarrow> (Inr (Abort 404), st1)
         | Some day_date \<Rightarrow>
             (Inr (ArchiveDayPage
                     (order_by_id (filter (\<lambda>t. task_date t = day_date) (task_table st1))) dy),
              st1))"

definition archive_week :: "runtime \<Rightarrow> clock \<Rightarrow> string \<Rightarrow> string \<Rightarrow> store \<Rightarrow> outcome" where
  "archive_week rt c yr wk st =
     (let st1 = check_rollover_and_archive rt c st
      in case (py_int rt (PStr yr), py_int rt (PStr wk)) of
           (Inr y, Inr w) \<Rightarrow>
             (Inr (ArchiveListPage
                     (filter (\<lambda>t. fst (isocalendar (task_date t)) = y \<and>
                                   fst (snd (isocalendar (task_date t))) = w)
                        (filter archived (task_table st1)))
                     (''Week '' @ str_int w @ '', '' @ str_int y)),
              st1)
         | _ \<Rightarrow> (Inr (Abort 404), st1))"

definition archive_month :: "runtime \<Rightarrow> clock \<Rightarrow> string \<Rightarrow> string \<Rightarrow> store \<Rightarrow> outcome" where
  "archive_month rt c yr mo st =
     (let st1 = check_rollover_and_archive rt c st
      in case (py_int rt (PStr yr), py_int rt (PStr mo)) of
           (Inr y, Inr m) \<Rightarrow>
             (Inr (ArchiveListPage
                     (filter (\<lambda>t. int (year (task_date t)) = y \<and> int (month (task_date t)) = m)
                        (filter archived (task_table st1)))
                     (str_int m @ ''/'' @ str_int y)),
              st1)
         | _ \<Rightarrow> (Inr (Abort 404), st1))"

definition archive_year :: "runtime \<Rightarrow> clock \<Rightarrow> string \<Rightarrow> store \<Rightarrow> outcome" where
  "archive_year rt c yr st =
     (let st1 = check_rollover_and_archive rt c st
      in case py_int rt (PStr yr) of
           Inr y \<Rightarrow>
             (Inr (ArchiveListPage
                     (filter (\<lambda>t. int (year (task_date t)) = y) (filter archived (task_table st1)))
                     (str_int y)),
              st1)
         | Inl e \<Rightarrow> (Inr (Abort 404), st1))"

text \<open>
  A request to one of the routes on tasks and the archive, and the application serving
  it. (The settings page, which edits the column names, is left out.)
\<close>

datatype operation =
    Index
  | AddTask request
  | MoveTask request
  | EditTask request
  | DeleteTask request
  | ArchiveIndex
  | ArchiveDay string
  | ArchiveWeek string string
  | ArchiveMonth string string
  | ArchiveYear string

fun serve :: "runtime \<Rightarrow> clock \<Rightarrow> operation \<Rightarrow> store \<Rightarrow> outcome" where
  "serve rt c Index st = index rt c st"
| "serve rt c (AddTask r) st = add_task rt c r st"
| "serve rt c (MoveTask r) st = move_task rt c r st"
| "serve rt c (EditTask r) st = edit_task rt c r st"
| "serve rt c (DeleteTask r) st = delete_task rt c r st"
| "serve rt c ArchiveIndex st = archive_index rt c st"
| "serve rt c (ArchiveDay d) st = archive_day rt c d st"
| "serve rt c (ArchiveWeek y w) st = archive_week rt c y w st"
| "serve rt c (ArchiveMonth y m) st = archive_month rt c y m st"
| "serve rt c (ArchiveYear y) st = archive_year rt c y st"

section \<open>Notions used by the properties\<close>

text \<open>
  The watermark: the stored \<open>last_active_date\<close>, read as a date when it is one. An
  absent row, NULL, the empty string and a text that is no date all give \<open>None\<close>.
\<close>

definition watermark :: "runtime \<Rightarrow> store \<Rightarrow> date option" where
  "watermark rt st =
     (case Setting_get st ''last_active_date'' of
        None \<Rightarrow> None
      | Some s \<Rightarrow> if s = [] then None else fromisoformat rt s)"

text \<open>What one catch-up from watermark \<open>w\<close> to \<open>now\<close> does to a single task.\<close>

definition archive_between :: "date \<Rightarrow> date \<Rightarrow> datetime \<Rightarrow> task \<Rightarrow> task" where
  "archive_between w now ts t =
     (if \<not> archived t \<and> date_le w (task_date t) \<and> date_lt (task_date t) now
      then t\<lparr>archived := True, archived_at := Some ts\<rparr> else t)"

definition valid_tasks :: "store \<Rightarrow> bool" where
  "valid_tasks st = list_all (\<lambda>t. valid_date (task_date t)) (task_table st)"

text \<open>A sequence of catch-up calls, one per clock reading, in order.\<close>

definition catch_up_all :: "runtime \<Rightarrow> clock list \<Rightarrow> store \<Rightarrow> store" where
  "catch_up_all rt cs st = fold (check_rollover_and_archive rt) cs st"

text \<open>The clock readings never go back from one call to the next.\<close>

definition nondecreasing :: "clock list \<Rightarrow> bool" where
  "nondecreasing cs = sorted_wrt (\<lambda>a b. date_le (today a) (today b)) cs"

text \<open>The archived tasks of a store, by id, in table order.\<close>

definition archived_ids :: "store \<Rightarrow> int list" where
  "archived_ids st = map task_id (filter archived (task_table st))"

text \<open>
  The invariant of the data model: the watermark is a date, not after today, and every
  task of a day before the watermark is archived.
\<close>

definition rollover_inv :: "runtime \<Rightarrow> date \<Rightarrow> store \<Rightarrow> bool" where
  "rollover_inv rt td st =
     (case watermark rt st of
        None \<Rightarrow> False
      | Some w \<Rightarrow> date_le w td \<and>
                  list_all (\<lambda>t. date_lt (task_date t) w \<longrightarrow> archived t) (task_table st))"

text \<open>
  The fields of a task that catch-up never writes: all but the archive flag and time.
\<close>

definition task_fields :: "task \<Rightarrow> int \<times> string \<times> string option \<times> int \<times> datetime \<times> date" where
  "task_fields t =
     (task_id t, title t, description t, column_index t, created_at t, task_date t)"

text \<open>The three rejections of the operations on tasks.\<close>

definition NotFound :: "exn + response" where
  "NotFound = Inr (ErrorJson ''task not found'' 404)"


definition NotEditable :: "(exn + response) set" where
  "NotEditable = {Inr (ErrorJson ''task is archived or not editable'' 400),
                  Inr (ErrorJson ''not editable'' 400),
                  Inr (ErrorJson ''not deletable'' 400)}"

text \<open>The tasks that the board holds under the column \<open>k\<close>.\<close>

definition tasks_under :: "(int \<rightharpoonup> task list) \<Rightarrow> int \<Rightarrow> task list" where
  "tasks_under m k = (case m k of None \<Rightarrow> [] | Some l \<Rightarrow> l)"


text \<open>
  What a catch-up at the day \<open>td\<close> may change of a task \<open>t\<close>, giving \<open>t'\<close>: nothing of a
  task of that day, and of any other task the archive flag and time only.
\<close>

definition kept :: "date \<Rightarrow> task \<Rightarrow> task \<Rightarrow> bool" where
  "kept td t' t = (task_fields t' = task_fields t \<and> (task_date t = td \<longrightarrow> t' = t))"

section \<open>Example states\<close>

text \<open>
  A runtime that reads the extended date format and plain decimal numerals only; a store
  holding one task T1 of 2024-01-10 and a given \<open>last_active_date\<close> string; a clock
  reading a given day.
\<close>

definition decimal :: "string \<Rightarrow> int option" where
  "decimal s =
     (case s of
        [] \<Rightarrow> None
      | c # cs \<Rightarrow>
          if c = CHR ''-'' then
            (if cs = [] then None else map_option (\<lambda>n. - int n) (parse_digits cs))
          else map_option int (parse_digits (c # cs)))"

definition ex_runtime :: runtime where
  "ex_runtime = \<lparr>fromisoformat = strict_fromisoformat, int_of_str = decimal,
                 key_of_text = decimal\<rparr>"

definition ex_task :: task where
  "ex_task = \<lparr>task_id = 1, title = ''T1'', description = None, column_index = 0,
              created_at = 0, task_date = Date 2024 1 10, archived = False,
              archived_at = None\<rparr>"

definition ex_store :: "string \<Rightarrow> store" where
  "ex_store wm = \<lparr>setting_table = [''last_active_date'' \<mapsto> Some wm], task_table = [ex_task]\<rparr>"

definition ex_clock :: "date \<Rightarrow> clock" where
  "ex_clock d = \<lparr>today = d, utcnow = 100\<rparr>"

lemmas ex_defs = ex_task_def ex_store_def ex_clock_def

section \<open>Facts about dates and the catch-up loop\<close>

lemma digit_roundtrip: "k < 10 \<Longrightarrow> digit_val (digit_char k) = Some k"
proof -
  assume "k < 10"
  then have "k = 0 \<or> k = 1 \<or> k = 2 \<or> k = 3 \<or> k = 4 \<or> k = 5 \<or> k = 6 \<or> k = 7 \<or> k = 8 \<or> k = 9"
    by presburger
  then show ?thesis
    by (elim disjE) (simp_all add: digit_val_def digit_char_def)
qed

lemma parse_pad2: "n < 100 \<Longrightarrow> parse_digits (pad2 n) = Some n"
  by (simp add: pad2_def digit_roundtrip)

lemma parse_pad4: "n < 10000 \<Longrightarrow> parse_digits (pad4 n) = Some n"
proof -
  assume n: "n < 10000"
  define q1 where "q1 = n div 10"
  define q2 where "q2 = q1 div 10"
  define q3 where "q3 = q2 div 10"
  define a0 where "a0 = n mod 10"
  define a1 where "a1 = q1 mod 10"
  define a2 where "a2 = q2 mod 10"
  have e0: "n = q1 * 10 + a0" by (simp add: q1_def a0_def)
  have e1: "q1 = q2 * 10 + a1" by (simp add: q2_def a1_def)
  have e2: "q2 = q3 * 10 + a2" by (simp add: q3_def a2_def)
  have d2: "n div 100 = q2"
    using div_mult2_eq[of n 10 10] by (simp add: q1_def q2_def)
  have d3: "n div 1000 = q3"
    using div_mult2_eq[of n 100 10] d2 by (simp add: q3_def)
  have "q3 < 10"
    using n less_mult_imp_div_less[of n 10 1000] d3 by simp
  then have m3: "q3 mod 10 = q3" by simp
  have lt: "a0 < 10" "a1 < 10" "a2 < 10" by (simp_all add: a0_def a1_def a2_def)
  have sum: "q3 * 1000 + (a2 * 100 + (a1 * 10 + a0)) = n"
    using e0 e1 e2 by linarith
  have "pad4 n = [digit_char q3, digit_char a2, digit_char a1, digit_char a0]"
    by (simp add: pad4_def d2 d3 m3 q1_def[symmetric] a0_def a1_def a2_def)
  then show ?thesis
    using sum \<open>q3 < 10\<close> lt by (simp add: digit_roundtrip)
qed

lemma strict_isoformat:
  assumes "valid_date d" shows "strict_fromisoformat (isoformat d) = Some d"
proof -
  have y: "year d < 10000" and m: "month d < 100" and dd: "day d < 100"
    using assms by (auto simp: valid_date_def days_in_month_def split: if_splits)
  have len: "length (isoformat d) = 10" by (simp add: isoformat_def pad4_def pad2_def)
  have t4: "take 4 (isoformat d) = pad4 (year d)" by (simp add: isoformat_def pad4_def pad2_def)
  have t5: "take 2 (drop 5 (isoformat d)) = pad2 (month d)" by (simp add: isoformat_def pad4_def pad2_def)
  have t8: "take 2 (drop 8 (isoformat d)) = pad2 (day d)" by (simp add: isoformat_def pad4_def pad2_def)
  have n4: "isoformat d ! 4 = CHR ''-''" "isoformat d ! 7 = CHR ''-''" by (simp_all add: isoformat_def pad4_def pad2_def)
  show ?thesis
    unfolding strict_fromisoformat_def using assms
    by (simp add: len t4 t5 t8 n4 parse_pad4[OF y] parse_pad2[OF m] parse_pad2[OF dd])
qed

lemma strict_valid: "strict_fromisoformat s = Some d \<Longrightarrow> valid_date d"
  unfolding strict_fromisoformat_def
  by (simp split: if_splits option.splits)

lemma strict_empty: "strict_fromisoformat [] = None"
  by (simp add: strict_fromisoformat_def)

lemma date_lt_irrefl: "\<not> date_lt a a" by (simp add: date_lt_def)
lemma date_lt_trans: "date_lt a b \<Longrightarrow> date_lt b c \<Longrightarrow> date_lt a c"
  by (auto simp: date_lt_def)
lemma date_total: "date_lt a b \<or> a = b \<or> date_lt b a"
  by (cases a; cases b) (auto simp: date_lt_def)
lemma date_lt_asym: "date_lt a b \<Longrightarrow> \<not> date_lt b a"
  by (auto simp: date_lt_def)

lemma days_in_month_ge: "1 \<le> m \<Longrightarrow> m \<le> 12 \<Longrightarrow> 28 \<le> days_in_month y m"
  by (simp add: days_in_month_def)

lemma valid_next_day:
  assumes "valid_date d" "valid_date td" "date_lt d td"
  shows "valid_date (next_day d)"
proof -
  obtain y m dd where d: "d = Date y m dd" by (cases d)
  obtain y' m' d' where td: "td = Date y' m' d'" by (cases td)
  define D where "D = days_in_month y m"
  define D' where "D' = days_in_month y' m'"
  have same: "y = y' \<Longrightarrow> m = m' \<Longrightarrow> D' = D" by (simp add: D_def D'_def)
  have b: "1 \<le> y" "y \<le> 9999" "1 \<le> m" "m \<le> 12" "1 \<le> dd" "dd \<le> D"
    using assms(1) by (simp_all add: valid_date_def d D_def)
  have b': "y' \<le> 9999" "m' \<le> 12" "d' \<le> D'"
    using assms(2) by (simp_all add: valid_date_def td D'_def)
  have lt: "y < y' \<or> (y = y' \<and> (m < m' \<or> (m = m' \<and> dd < d')))"
    using assms(3) by (simp add: date_lt_def d td)
  show ?thesis
  proof (cases "dd < D")
    case True
    then show ?thesis using b by (simp add: next_day_def valid_date_def d D_def)
  next
    case False
    note nd = False
    show ?thesis
    proof (cases "m < 12")
      case True
      have "28 \<le> days_in_month y (m + 1)" using True by (intro days_in_month_ge) simp_all
      then show ?thesis using b True nd by (simp add: next_day_def valid_date_def d D_def)
    next
      case False
      with b have m12: "m = 12" by simp
      have "y < y'" using lt b' same nd m12 by auto
      then have "y + 1 \<le> 9999" using b' by simp
      moreover have "days_in_month (y + 1) 1 = 31" by (simp add: days_in_month_def)
      ultimately show ?thesis using nd m12 by (simp add: next_day_def valid_date_def d D_def)
    qed
  qed
qed

lemma next_day_le:
  assumes "valid_date d" "valid_date x" "x \<noteq> d"
  shows "date_le (next_day d) x = date_le d x"
proof -
  obtain y m dd where d: "d = Date y m dd" by (cases d)
  obtain y' m' d' where x: "x = Date y' m' d'" by (cases x)
  define D where "D = days_in_month y m"
  define D' where "D' = days_in_month y' m'"
  have same: "y = y' \<Longrightarrow> m = m' \<Longrightarrow> D' = D" by (simp add: D_def D'_def)
  have b: "1 \<le> m" "m \<le> 12" "1 \<le> dd" "dd \<le> D"
    using assms(1) by (simp_all add: valid_date_def d D_def)
  have b': "1 \<le> m'" "m' \<le> 12" "1 \<le> d'" "d' \<le> D'"
    using assms(2) by (simp_all add: valid_date_def x D'_def)
  have ne: "y \<noteq> y' \<or> m \<noteq> m' \<or> dd \<noteq> d'" using assms(3) by (auto simp: d x)
  show ?thesis
  proof (cases "dd < D")
    case True
    have nd: "next_day (Date y m dd) = Date y m (dd + 1)" using True by (simp add: next_day_def D_def)
    show ?thesis unfolding x d nd date_le_def date_lt_def using ne by auto
  next
    case False
    note nlt = False
    show ?thesis
    proof (cases "m < 12")
      case True
      have nd: "next_day (Date y m dd) = Date y (m + 1) 1" using True nlt by (simp add: next_day_def D_def)
      show ?thesis unfolding x d nd date_le_def date_lt_def using ne b b' same nlt by auto
    next
      case False
      have nd: "next_day (Date y m dd) = Date (y + 1) 1 1" using False nlt by (simp add: next_day_def D_def)
      show ?thesis unfolding x d nd date_le_def date_lt_def using ne b b' same nlt False by auto
    qed
  qed
qed

lemma archive_loop_eq:
  "valid_date d \<Longrightarrow> valid_date td \<Longrightarrow> list_all (\<lambda>t. valid_date (task_date t)) ts \<Longrightarrow>
   archive_loop d td now ts = map (archive_between d td now) ts"
proof (induction d td now ts rule: archive_loop.induct)
  case (1 d td now ts)
  show ?case
  proof (cases "date_lt d td")
    case True
    have v: "valid_date (next_day d)" using valid_next_day[OF "1.prems"(1,2) True] .
    have vt: "list_all (\<lambda>t. valid_date (task_date t)) (archive_day_tasks d now ts)"
      using "1.prems"(3) by (auto simp: archive_day_tasks_def list_all_iff)
    have "archive_loop d td now ts = archive_loop (next_day d) td now (archive_day_tasks d now ts)"
      using True by (subst archive_loop.simps) simp
    also have "\<dots> = map (archive_between (next_day d) td now) (archive_day_tasks d now ts)"
      using "1.IH"[OF True v "1.prems"(2) vt] .
    also have "\<dots> = map (archive_between d td now) ts"
    proof -
      have "archive_between (next_day d) td now
              (if task_date t = d \<and> \<not> archived t
               then t\<lparr>archived := True, archived_at := Some now\<rparr> else t)
            = archive_between d td now t" if "valid_date (task_date t)" for t
      proof (cases "task_date t = d")
        case True
        with \<open>date_lt d td\<close> show ?thesis by (simp add: archive_between_def date_le_def)
      next
        case False
        with next_day_le[OF "1.prems"(1) that False] show ?thesis
          by (simp add: archive_between_def)
      qed
      with "1.prems"(3) show ?thesis
        by (simp add: archive_day_tasks_def list_all_iff)
    qed
    finally show ?thesis .
  next
    case False
    have "archive_between d td now t = t" for t
      using False date_lt_trans[of d "task_date t" td]
      by (auto simp: archive_between_def date_le_def)
    then have "map (archive_between d td now) ts = ts" by (simp add: map_idI)
    moreover have "archive_loop d td now ts = ts"
      using False by (subst archive_loop.simps) simp
    ultimately show ?thesis by simp
  qed
qed

lemma date_parser_strict: "date_parser strict_fromisoformat"
  unfolding date_parser_def using strict_valid strict_isoformat by blast

lemma isoformat_nonempty: "isoformat d \<noteq> []"
  by (simp add: isoformat_def pad4_def)

lemma watermark_Some:
  "watermark rt st = Some w \<Longrightarrow>
   \<exists>s. Setting_get st ''last_active_date'' = Some s \<and> s \<noteq> [] \<and> fromisoformat rt s = Some w"
  by (cases "Setting_get st ''last_active_date''") (auto simp: watermark_def split: if_splits)

lemma watermark_Setting_set:
  assumes "date_parser (fromisoformat rt)" and "valid_date d"
  shows "watermark rt (Setting_set ''last_active_date'' (isoformat d) st) = Some d"
proof -
  have "fromisoformat rt (isoformat d) = Some d"
    using assms by (simp add: date_parser_def)
  then show ?thesis
    by (simp add: watermark_def Setting_set_def Setting_get_def isoformat_nonempty)
qed

lemma catch_up_parsed:
  assumes "date_parser (fromisoformat rt)" and "watermark rt st = Some w"
    and "valid_date (today c)" and "valid_tasks st"
  shows "task_table (check_rollover_and_archive rt c st)
           = map (archive_between w (today c) (utcnow c)) (task_table st)"
    and "watermark rt (check_rollover_and_archive rt c st)
           = Some (if date_lt w (today c) then today c else w)"
    and "date_lt w (today c) \<or> check_rollover_and_archive rt c st = st"
proof -
  obtain s where s: "Setting_get st ''last_active_date'' = Some s" "s \<noteq> []"
    "fromisoformat rt s = Some w"
    using watermark_Some[OF assms(2)] by blast
  have vw: "valid_date w" using s(3) assms(1) by (auto simp: date_parser_def)
  have loop: "archive_loop w (today c) (utcnow c) (task_table st)
                = map (archive_between w (today c) (utcnow c)) (task_table st)"
    using archive_loop_eq[OF vw assms(3)] assms(4) by (simp add: valid_tasks_def)
  have A: "task_table (check_rollover_and_archive rt c st)
             = map (archive_between w (today c) (utcnow c)) (task_table st)
           \<and> watermark rt (check_rollover_and_archive rt c st)
             = Some (if date_lt w (today c) then today c else w)
           \<and> (date_lt w (today c) \<or> check_rollover_and_archive rt c st = st)"
  proof (cases "date_lt w (today c)")
    case True
    have eq: "check_rollover_and_archive rt c st =
            Setting_set ''last_active_date'' (isoformat (today c))
              (st\<lparr>task_table := map (archive_between w (today c) (utcnow c)) (task_table st)\<rparr>)"
      using s True loop by (simp add: check_rollover_and_archive_def)
    have "task_table (check_rollover_and_archive rt c st)
            = map (archive_between w (today c) (utcnow c)) (task_table st)"
      unfolding eq by (simp add: Setting_set_def)
    moreover have "watermark rt (check_rollover_and_archive rt c st) = Some (today c)"
      unfolding eq by (rule watermark_Setting_set[OF assms(1,3)])
    ultimately show ?thesis using True by simp
  next
    case False
    have eq: "check_rollover_and_archive rt c st = st"
      using s False by (simp add: check_rollover_and_archive_def)
    have "archive_between w (today c) (utcnow c) t = t" for t
      using False date_lt_trans[of w "task_date t" "today c"]
      by (auto simp: archive_between_def date_le_def)
    then have "map (archive_between w (today c) (utcnow c)) (task_table st) = task_table st"
      by (simp add: map_idI)
    then show ?thesis using eq False assms(2) by simp
  qed
  from A show "task_table (check_rollover_and_archive rt c st)
           = map (archive_between w (today c) (utcnow c)) (task_table st)" by blast
  from A show "watermark rt (check_rollover_and_archive rt c st)
           = Some (if date_lt w (today c) then today c else w)" by blast
  from A show "date_lt w (today c) \<or> check_rollover_and_archive rt c st = st" by blast
qed

lemma catch_up_unparsed:
  assumes "watermark rt st = None"
  shows "check_rollover_and_archive rt c st
           = Setting_set ''last_active_date'' (isoformat (today c)) st"
  using assms
  by (auto simp: check_rollover_and_archive_def watermark_def split: option.splits if_splits)

lemma archive_between_fields [simp]:
  "task_date (archive_between w n ts t) = task_date t"
  "task_id (archive_between w n ts t) = task_id t"
  "task_fields (archive_between w n ts t) = task_fields t"
  "archived (archive_between w n ts t)
     = (archived t \<or> (date_le w (task_date t) \<and> date_lt (task_date t) n))"
  by (auto simp: archive_between_def task_fields_def)

lemma valid_tasks_catch_up:
  assumes "date_parser (fromisoformat rt)" and "watermark rt st = Some w"
    and "valid_date (today c)" and "valid_tasks st"
  shows "valid_tasks (check_rollover_and_archive rt c st)"
  using assms(4) unfolding valid_tasks_def catch_up_parsed(1)[OF assms]
  by (simp add: list_all_iff)

lemma range_join:
  assumes "date_le n l"
  shows "((date_le w d \<and> date_lt d n) \<or>
          (date_le (if date_lt w n then n else w) d \<and> date_lt d l))
         = (date_le w d \<and> date_lt d l)"
  using assms date_lt_trans[of w n d] date_lt_trans[of d n l] date_lt_trans[of w d n]
    date_total[of d n] date_lt_asym[of d n] date_lt_irrefl[of n]
  unfolding date_le_def by (cases "date_lt w n") auto

lemma ids_from_maps:
  "map task_id xs = map task_id ys \<Longrightarrow> map archived xs = map archived ys \<Longrightarrow>
   map task_id (filter archived xs) = map task_id (filter archived ys)"
proof (induction xs arbitrary: ys)
  case Nil
  then show ?case by simp
next
  case (Cons x xs)
  then obtain y ys' where ys: "ys = y # ys'" by (cases ys) auto
  with Cons.prems have "task_id x = task_id y" "archived x = archived y"
    "map task_id xs = map task_id ys'" "map archived xs = map archived ys'" by auto
  with Cons.IH[of ys'] ys show ?case by simp
qed

lemma sorted_head_le_last:
  "nondecreasing (c # cs) \<Longrightarrow> cs \<noteq> [] \<Longrightarrow> date_le (today c) (today (last cs))"
  by (simp add: nondecreasing_def)

lemma catch_up_all_flags:
  "cs \<noteq> [] \<Longrightarrow> nondecreasing cs \<Longrightarrow> list_all (\<lambda>c. valid_date (today c)) cs \<Longrightarrow>
   date_parser (fromisoformat rt) \<Longrightarrow> watermark rt st = Some w \<Longrightarrow> valid_tasks st \<Longrightarrow>
   map archived (task_table (catch_up_all rt cs st))
     = map (\<lambda>t. archived t \<or> (date_le w (task_date t) \<and> date_lt (task_date t) (today (last cs))))
         (task_table st)
   \<and> map task_id (task_table (catch_up_all rt cs st)) = map task_id (task_table st)"
proof (induction cs arbitrary: st w)
  case Nil
  then show ?case by simp
next
  case (Cons c cs)
  have vc: "valid_date (today c)" using Cons.prems(3) by simp
  note step = catch_up_parsed[OF Cons.prems(4,5) vc Cons.prems(6)]
  let ?st1 = "check_rollover_and_archive rt c st"
  let ?w1 = "if date_lt w (today c) then today c else w"
  show ?case
  proof (cases "cs = []")
    case True
    then show ?thesis using step(1) by (simp add: catch_up_all_def)
  next
    case False
    have nd: "nondecreasing cs" using Cons.prems(2) by (simp add: nondecreasing_def)
    have va: "list_all (\<lambda>c. valid_date (today c)) cs" using Cons.prems(3) by simp
    have vt: "valid_tasks ?st1"
      by (rule valid_tasks_catch_up[OF Cons.prems(4,5) vc Cons.prems(6)])
    have le: "date_le (today c) (today (last cs))"
      by (rule sorted_head_le_last[OF Cons.prems(2) False])
    have all: "catch_up_all rt (c # cs) st = catch_up_all rt cs ?st1"
      by (simp add: catch_up_all_def)
    have lst: "last (c # cs) = last cs" using False by simp
    note ih = Cons.IH[OF False nd va Cons.prems(4) step(2) vt]
    have "map archived (task_table (catch_up_all rt (c # cs) st))
            = map (\<lambda>t. archived t \<or> (date_le ?w1 (task_date t) \<and>
                                         date_lt (task_date t) (today (last cs))))
                (task_table ?st1)"
      unfolding all using ih by blast
    also have "\<dots> = map (\<lambda>t. archived t \<or> (date_le w (task_date t) \<and>
                                         date_lt (task_date t) (today (last cs))))
                (task_table st)"
      unfolding step(1) using range_join[OF le, of w] by (auto simp del: if_split)
    finally have A: "map archived (task_table (catch_up_all rt (c # cs) st))
            = map (\<lambda>t. archived t \<or> (date_le w (task_date t) \<and>
                                         date_lt (task_date t) (today (last (c # cs)))))
                (task_table st)"
      unfolding lst .
    have "map task_id (task_table (catch_up_all rt (c # cs) st)) = map task_id (task_table ?st1)"
      unfolding all using ih by blast
    also have "\<dots> = map task_id (task_table st)"
      unfolding step(1) by simp
    finally show ?thesis using A by blast
  qed
qed

lemma ex_parser: "date_parser (fromisoformat ex_runtime)"
  by (simp add: ex_runtime_def date_parser_strict)

lemma ex_watermark_10: "watermark ex_runtime (ex_store ''2024-01-10'') = Some (Date 2024 1 10)"
  by (simp add: watermark_def Setting_get_def ex_store_def ex_runtime_def
        strict_fromisoformat_def valid_date_def days_in_month_def digit_val_def)

lemma ex_watermark_bad: "watermark ex_runtime (ex_store ''not-a-date'') = None"
  by (simp add: watermark_def Setting_get_def ex_store_def ex_runtime_def
        strict_fromisoformat_def)

lemma ex_valid_tasks: "valid_tasks (ex_store wm)"
  by (simp add: ex_defs valid_tasks_def valid_date_def days_in_month_def)

lemma ex_valid_today:
  "valid_date (today (ex_clock (Date 2024 1 10)))"
  "valid_date (today (ex_clock (Date 2024 1 11)))"
  "valid_date (today (ex_clock (Date 2024 1 13)))"
  "valid_date (today (ex_clock (Date 2024 2 1)))"
  by (simp_all add: ex_clock_def valid_date_def days_in_month_def is_leap_def)

section \<open>Catch-up\<close>

text \<open>
  C1. When the stored watermark parses to a date \<open>w\<close> and \<open>w \<le> now\<close>, one call of
  \<open>check_rollover_and_archive\<close> archives exactly the tasks that were not archived and
  whose \<open>task_date\<close> lies in \<open>[w, now)\<close>, setting \<open>archived\<close> and \<open>archived_at\<close> on each;
  every other task (dated \<open>now\<close> or later, or already archived) is left as it was, and
  afterwards the watermark reads \<open>now\<close>.
\<close>

theorem catch_up_archives_range:
  assumes "date_parser (fromisoformat rt)"
    and "watermark rt st = Some w" and "date_le w (today c)"
    and "valid_date (today c)" and "valid_tasks st"
  shows "task_table (check_rollover_and_archive rt c st)
           = map (archive_between w (today c) (utcnow c)) (task_table st)
         \<and> watermark rt (check_rollover_and_archive rt c st) = Some (today c)"
proof -
  note step = catch_up_parsed[OF assms(1,2,4,5)]
  have "(if date_lt w (today c) then today c else w) = today c"
    using assms(3) by (auto simp: date_le_def)
  with step(1,2) show ?thesis by simp
qed

theorem catch_up_archives_range_witness:
  "date_parser (fromisoformat ex_runtime)
   \<and> watermark ex_runtime (ex_store ''2024-01-10'') = Some (Date 2024 1 10)
   \<and> date_le (Date 2024 1 10) (today (ex_clock (Date 2024 1 13)))
   \<and> valid_date (today (ex_clock (Date 2024 1 13)))
   \<and> valid_tasks (ex_store ''2024-01-10'')
   \<and> task_table (check_rollover_and_archive ex_runtime (ex_clock (Date 2024 1 13))
                   (ex_store ''2024-01-10''))
       = [ex_task\<lparr>archived := True, archived_at := Some 100\<rparr>]
   \<and> watermark ex_runtime (check_rollover_and_archive ex_runtime (ex_clock (Date 2024 1 13))
                             (ex_store ''2024-01-10''))
       = Some (Date 2024 1 13)"
proof -
  have le: "date_le (Date 2024 1 10) (today (ex_clock (Date 2024 1 13)))"
    by (simp add: ex_clock_def date_le_def date_lt_def)
  have ev: "map (archive_between (Date 2024 1 10) (today (ex_clock (Date 2024 1 13)))
                   (utcnow (ex_clock (Date 2024 1 13)))) (task_table (ex_store ''2024-01-10''))
              = [ex_task\<lparr>archived := True, archived_at := Some 100\<rparr>]"
    by (simp add: ex_defs archive_between_def date_le_def date_lt_def)
  have td: "today (ex_clock (Date 2024 1 13)) = Date 2024 1 13"
    by (simp add: ex_clock_def)
  from catch_up_archives_range[OF ex_parser ex_watermark_10 le ex_valid_today(3) ex_valid_tasks]
  show ?thesis
    unfolding ev using ex_parser ex_watermark_10 le ex_valid_today(3) ex_valid_tasks td
    by simp
qed

text \<open>
  C6. When the stored watermark is absent, NULL, empty or a text that
  \<open>date.fromisoformat\<close> refuses, catch-up stores \<open>now\<close> as the watermark, archives nothing
  and raises nothing: the function is total and returns the store with only that setting
  changed.
\<close>

theorem corrupt_watermark_reset:
  assumes "date_parser (fromisoformat rt)"
    and "watermark rt st = None" and "valid_date (today c)"
  shows "check_rollover_and_archive rt c st
           = Setting_set ''last_active_date'' (isoformat (today c)) st
         \<and> task_table (check_rollover_and_archive rt c st) = task_table st
         \<and> watermark rt (check_rollover_and_archive rt c st) = Some (today c)"
  using catch_up_unparsed[OF assms(2), of c] watermark_Setting_set[OF assms(1,3), of st]
  by (simp add: Setting_set_def)

theorem corrupt_watermark_reset_witness:
  "date_parser (fromisoformat ex_runtime)
   \<and> watermark ex_runtime (ex_store ''not-a-date'') = None
   \<and> valid_date (today (ex_clock (Date 2024 2 1)))
   \<and> task_table (check_rollover_and_archive ex_runtime (ex_clock (Date 2024 2 1))
                   (ex_store ''not-a-date''))
       = [ex_task]
   \<and> watermark ex_runtime (check_rollover_and_archive ex_runtime (ex_clock (Date 2024 2 1))
                             (ex_store ''not-a-date''))
       = Some (Date 2024 2 1)"
proof -
  have t: "task_table (ex_store ''not-a-date'') = [ex_task]"
    by (simp add: ex_store_def)
  have c: "today (ex_clock (Date 2024 2 1)) = Date 2024 2 1"
    by (simp add: ex_clock_def)
  from corrupt_watermark_reset[OF ex_parser ex_watermark_bad ex_valid_today(4)]
    ex_parser ex_watermark_bad ex_valid_today(4)
  show ?thesis
    unfolding t c by blast
qed

text \<open>
  C2, as the claim states it, fails: it quantifies over every initial store. With an
  absent or corrupt watermark the first call of a sequence only resets the watermark, and
  the later calls archive from there, while a single call at the final clock value resets
  the watermark and archives nothing. Here T1 of 2024-01-10 is archived by the calls at
  2024-01-10 and 2024-01-13 and not by the single call at 2024-01-13.
\<close>

theorem catch_up_batching_counterexample:
  "nondecreasing [ex_clock (Date 2024 1 10), ex_clock (Date 2024 1 13)]
   \<and> watermark ex_runtime (ex_store ''not-a-date'') = None
   \<and> archived_ids (catch_up_all ex_runtime [ex_clock (Date 2024 1 10), ex_clock (Date 2024 1 13)]
                     (ex_store ''not-a-date'')) = [1]
   \<and> archived_ids (check_rollover_and_archive ex_runtime
                     (last [ex_clock (Date 2024 1 10), ex_clock (Date 2024 1 13)])
                     (ex_store ''not-a-date'')) = []"
proof -
  let ?st0 = "ex_store ''not-a-date''"
  let ?c10 = "ex_clock (Date 2024 1 10)"
  let ?c13 = "ex_clock (Date 2024 1 13)"
  let ?st1 = "Setting_set ''last_active_date'' (isoformat (today ?c10)) ?st0"
  have nd: "nondecreasing [?c10, ?c13]"
    by (simp add: nondecreasing_def ex_clock_def date_le_def date_lt_def)
  note w0 = ex_watermark_bad
  note v10 = ex_valid_today(1) and v13 = ex_valid_today(3)
  have first: "check_rollover_and_archive ex_runtime ?c10 ?st0 = ?st1"
    by (rule catch_up_unparsed[OF w0])
  have w1: "watermark ex_runtime ?st1 = Some (today ?c10)"
    by (rule watermark_Setting_set[OF ex_parser v10])
  have t1: "task_table ?st1 = [ex_task]"
    by (simp add: Setting_set_def ex_store_def)
  have vt1: "valid_tasks ?st1"
    unfolding valid_tasks_def t1 by (simp add: ex_task_def valid_date_def days_in_month_def)
  have second: "task_table (check_rollover_and_archive ex_runtime ?c13 ?st1)
                  = [ex_task\<lparr>archived := True, archived_at := Some 100\<rparr>]"
    unfolding catch_up_parsed(1)[OF ex_parser w1 v13 vt1] t1
    by (simp add: archive_between_def ex_task_def ex_clock_def date_le_def date_lt_def)
  have both: "catch_up_all ex_runtime [?c10, ?c13] ?st0
                = check_rollover_and_archive ex_runtime ?c13 ?st1"
    unfolding catch_up_all_def by (simp only: fold.simps o_apply id_apply first)
  have seq: "archived_ids (catch_up_all ex_runtime [?c10, ?c13] ?st0) = [1]"
    unfolding archived_ids_def both second by (simp add: ex_task_def)
  have single: "check_rollover_and_archive ex_runtime ?c13 ?st0
                  = Setting_set ''last_active_date'' (isoformat (today ?c13)) ?st0"
    by (rule catch_up_unparsed[OF w0])
  have lst: "last [?c10, ?c13] = ?c13" by simp
  have one: "archived_ids (check_rollover_and_archive ex_runtime (last [?c10, ?c13]) ?st0) = []"
    unfolding lst single archived_ids_def
    by (simp add: Setting_set_def ex_store_def ex_task_def)
  from nd w0 seq one show ?thesis by blast
qed

text \<open>
  C2, amended. For every store whose watermark parses as a date, and every non-empty
  sequence of catch-up calls with non-decreasing clock values, the archived tasks after
  the whole sequence are those after a single call with the last clock value.
\<close>

theorem catch_up_batching:
  assumes "cs \<noteq> []" and "nondecreasing cs"
    and "list_all (\<lambda>c. valid_date (today c)) cs"
    and "date_parser (fromisoformat rt)"
    and "watermark rt st = Some w" and "valid_tasks st"
  shows "archived_ids (catch_up_all rt cs st)
           = archived_ids (check_rollover_and_archive rt (last cs) st)"
proof -
  have vl: "valid_date (today (last cs))"
    using assms(1,3) by (simp add: list_all_iff)
  have one: "catch_up_all rt [last cs] st = check_rollover_and_archive rt (last cs) st"
    by (simp add: catch_up_all_def)
  have s1: "map archived (task_table (catch_up_all rt [last cs] st))
     = map (\<lambda>t. archived t \<or> (date_le w (task_date t) \<and> date_lt (task_date t) (today (last cs))))
         (task_table st)
     \<and> map task_id (task_table (catch_up_all rt [last cs] st)) = map task_id (task_table st)"
    using catch_up_all_flags[of "[last cs]" rt st w] vl assms(4,5,6)
    by (simp add: nondecreasing_def)
  note sn = catch_up_all_flags[OF assms]
  have "map task_id (task_table (catch_up_all rt cs st))
          = map task_id (task_table (check_rollover_and_archive rt (last cs) st))"
    using s1 sn unfolding one by simp
  moreover have "map archived (task_table (catch_up_all rt cs st))
          = map archived (task_table (check_rollover_and_archive rt (last cs) st))"
    using s1 sn unfolding one by simp
  ultimately show ?thesis
    unfolding archived_ids_def by (rule ids_from_maps)
qed

theorem catch_up_batching_witness:
  "[ex_clock (Date 2024 1 11), ex_clock (Date 2024 1 13)] \<noteq> []
   \<and> nondecreasing [ex_clock (Date 2024 1 11), ex_clock (Date 2024 1 13)]
   \<and> list_all (\<lambda>c. valid_date (today c)) [ex_clock (Date 2024 1 11), ex_clock (Date 2024 1 13)]
   \<and> date_parser (fromisoformat ex_runtime)
   \<and> watermark ex_runtime (ex_store ''2024-01-10'') = Some (Date 2024 1 10)
   \<and> valid_tasks (ex_store ''2024-01-10'')
   \<and> archived_ids (catch_up_all ex_runtime [ex_clock (Date 2024 1 11), ex_clock (Date 2024 1 13)]
                     (ex_store ''2024-01-10''))
       = archived_ids (check_rollover_and_archive ex_runtime (ex_clock (Date 2024 1 13))
                         (ex_store ''2024-01-10''))"
proof -
  have h1: "[ex_clock (Date 2024 1 11), ex_clock (Date 2024 1 13)] \<noteq> []" by simp
  have h2: "nondecreasing [ex_clock (Date 2024 1 11), ex_clock (Date 2024 1 13)]"
    by (simp add: nondecreasing_def ex_clock_def date_le_def date_lt_def)
  have h3: "list_all (\<lambda>c. valid_date (today c))
              [ex_clock (Date 2024 1 11), ex_clock (Date 2024 1 13)]"
    using ex_valid_today by simp
  from catch_up_batching[OF h1 h2 h3 ex_parser ex_watermark_10 ex_valid_tasks]
    h1 h2 h3 ex_parser ex_watermark_10 ex_valid_tasks
  show ?thesis by simp
qed

section \<open>The invariant of the watermark\<close>

lemma inv_after_catch_up:
  assumes "date_parser (fromisoformat rt)"
    and "rollover_inv rt td0 st" and "watermark rt st = Some w" and "date_le w (today c)"
    and "valid_date (today c)" and "valid_tasks st"
  shows "rollover_inv rt (today c) (check_rollover_and_archive rt c st)"
    and "watermark rt (check_rollover_and_archive rt c st) = Some (today c)"
proof -
  note step = catch_up_parsed[OF assms(1,3,5,6)]
  have w': "watermark rt (check_rollover_and_archive rt c st) = Some (today c)"
    using step(2) assms(4) by (auto simp: date_le_def)
  have pre: "\<forall>t\<in>set (task_table st). date_lt (task_date t) w \<longrightarrow> archived t"
    using assms(2,3) by (simp add: rollover_inv_def list_all_iff)
  have "date_lt (task_date t) (today c) \<longrightarrow> archived (archive_between w (today c) (utcnow c) t)"
    if "t \<in> set (task_table st)" for t
    using pre that date_total[of "task_date t" w] by (auto simp: date_le_def)
  then have "list_all (\<lambda>t. date_lt (task_date t) (today c) \<longrightarrow> archived t)
               (task_table (check_rollover_and_archive rt c st))"
    unfolding step(1) by (simp add: list_all_iff)
  then show "rollover_inv rt (today c) (check_rollover_and_archive rt c st)"
    using w' by (simp add: rollover_inv_def date_le_def)
  show "watermark rt (check_rollover_and_archive rt c st) = Some (today c)" by (rule w')
qed

lemma inv_tasks:
  assumes "watermark rt st1 = Some td"
    and "list_all (\<lambda>t. date_lt (task_date t) td \<longrightarrow> archived t) ts"
  shows "rollover_inv rt td (st1\<lparr>task_table := ts\<rparr>)"
  using assms by (simp add: rollover_inv_def watermark_def Setting_get_def date_le_def)

lemma inv_get:
  "rollover_inv rt td st1 \<Longrightarrow> watermark rt st1 = Some td \<Longrightarrow>
   list_all (\<lambda>t. date_lt (task_date t) td \<longrightarrow> archived t) (task_table st1)"
  by (simp add: rollover_inv_def)

lemma all_append:
  "list_all (\<lambda>t. date_lt (task_date t) td \<longrightarrow> archived t) ts \<Longrightarrow> task_date t = td \<Longrightarrow>
   list_all (\<lambda>t. date_lt (task_date t) td \<longrightarrow> archived t) (ts @ [t])"
  by (simp add: date_lt_irrefl)

lemma all_update:
  "list_all (\<lambda>t. date_lt (task_date t) td \<longrightarrow> archived t) ts \<Longrightarrow> task_date t' = td \<Longrightarrow>
   list_all (\<lambda>t. date_lt (task_date t) td \<longrightarrow> archived t) (update_task t' ts)"
  by (auto simp: update_task_def list_all_iff date_lt_irrefl)

lemma all_filter:
  "list_all (\<lambda>t. date_lt (task_date t) td \<longrightarrow> archived t) ts \<Longrightarrow>
   list_all (\<lambda>t. date_lt (task_date t) td \<longrightarrow> archived t) (filter f ts)"
  by (simp add: list_all_iff)

lemma snd_early [simp]: "snd (early f st) = st"
  by (cases f) simp_all

lemma inv_add_task:
  assumes "rollover_inv rt (today c) (check_rollover_and_archive rt c st)"
    and "watermark rt (check_rollover_and_archive rt c st) = Some (today c)"
  shows "rollover_inv rt (today c) (snd (add_task rt c r st))"
  using assms(1) inv_tasks[OF assms(2) all_append[OF inv_get[OF assms]]]
  by (simp add: add_task_def Let_def split: sum.splits option.splits)

lemma inv_move_task:
  assumes "rollover_inv rt (today c) (check_rollover_and_archive rt c st)"
    and "watermark rt (check_rollover_and_archive rt c st) = Some (today c)"
  shows "rollover_inv rt (today c) (snd (move_task rt c r st))"
  using assms(1) inv_tasks[OF assms(2) all_update[OF inv_get[OF assms]]]
  by (simp add: move_task_def Let_def split: sum.splits option.splits)

lemma inv_edit_task:
  assumes "rollover_inv rt (today c) (check_rollover_and_archive rt c st)"
    and "watermark rt (check_rollover_and_archive rt c st) = Some (today c)"
  shows "rollover_inv rt (today c) (snd (edit_task rt c r st))"
  using assms(1) inv_tasks[OF assms(2) all_update[OF inv_get[OF assms]]]
  by (simp add: edit_task_def Let_def split: sum.splits option.splits)

lemma inv_delete_task:
  assumes "rollover_inv rt (today c) (check_rollover_and_archive rt c st)"
    and "watermark rt (check_rollover_and_archive rt c st) = Some (today c)"
  shows "rollover_inv rt (today c) (snd (delete_task rt c r st))"
  using assms(1) inv_tasks[OF assms(2) all_filter[OF inv_get[OF assms]]]
  by (simp add: delete_task_def Let_def split: sum.splits option.splits)

lemma inv_views:
  assumes "rollover_inv rt (today c) (check_rollover_and_archive rt c st)"
  shows "rollover_inv rt (today c) (snd (index rt c st))"
    and "rollover_inv rt (today c) (snd (archive_index rt c st))"
    and "rollover_inv rt (today c) (snd (archive_day rt c dy st))"
    and "rollover_inv rt (today c) (snd (archive_week rt c yr wk st))"
    and "rollover_inv rt (today c) (snd (archive_month rt c yr mo st))"
    and "rollover_inv rt (today c) (snd (archive_year rt c yr st))"
  using assms
  by (simp_all add: index_def archive_index_def archive_day_def archive_week_def
        archive_month_def archive_year_def Let_def split: sum.splits option.splits)

lemma inv_serve:
  assumes "rollover_inv rt (today c) (check_rollover_and_archive rt c st)"
    and "watermark rt (check_rollover_and_archive rt c st) = Some (today c)"
  shows "rollover_inv rt (today c) (snd (serve rt c op st))"
  using inv_add_task[OF assms] inv_move_task[OF assms] inv_edit_task[OF assms]
    inv_delete_task[OF assms] inv_views[OF assms(1)]
  by (cases op) simp_all

text \<open>
  C5, as the claim states it, fails where it says that the invariant also survives a
  clock that has moved back: a catch-up with a clock value before the watermark changes
  nothing, so afterwards the watermark is after today. Here the invariant holds on
  2024-01-13 with the watermark of that day, and not after the catch-up of 2024-01-10.
\<close>

theorem rollover_invariant_counterexample:
  "rollover_inv ex_runtime (Date 2024 1 13) ((ex_store ''2024-01-13'')\<lparr>task_table := []\<rparr>)
   \<and> date_lt (today (ex_clock (Date 2024 1 10))) (Date 2024 1 13)
   \<and> \<not> rollover_inv ex_runtime (today (ex_clock (Date 2024 1 10)))
         (check_rollover_and_archive ex_runtime (ex_clock (Date 2024 1 10))
            ((ex_store ''2024-01-13'')\<lparr>task_table := []\<rparr>))"
proof -
  let ?st = "(ex_store ''2024-01-13'')\<lparr>task_table := []\<rparr>"
  let ?c = "ex_clock (Date 2024 1 10)"
  have w: "watermark ex_runtime ?st = Some (Date 2024 1 13)"
    by (simp add: watermark_def Setting_get_def ex_store_def ex_runtime_def
          strict_fromisoformat_def valid_date_def days_in_month_def digit_val_def)
  have vt: "valid_tasks ?st" by (simp add: valid_tasks_def)
  have bk: "date_lt (today ?c) (Date 2024 1 13)"
    by (simp add: ex_clock_def date_lt_def)
  have pre: "rollover_inv ex_runtime (Date 2024 1 13) ?st"
    unfolding rollover_inv_def w by (simp add: date_le_def)
  have same: "check_rollover_and_archive ex_runtime ?c ?st = ?st"
    using catch_up_parsed(3)[OF ex_parser w ex_valid_today(1) vt] date_lt_asym[OF bk] by blast
  have ne: "Date 2024 1 13 \<noteq> today ?c"
    by (simp add: ex_clock_def)
  have post: "\<not> rollover_inv ex_runtime (today ?c) ?st"
    unfolding rollover_inv_def w using date_lt_asym[OF bk] ne
    by (simp add: date_le_def)
  show ?thesis unfolding same using pre bk post by blast
qed

text \<open>
  C5, amended. From a state with the invariant, every operation (the board, create,
  move, edit, delete and the archive queries, each after its catch-up) served at a clock
  value that is not before the stored watermark leaves the invariant in force, for the
  new clock value; a catch-up at a clock value strictly before the watermark leaves the
  store as it is.
\<close>

theorem rollover_invariant_preserved:
  assumes "date_parser (fromisoformat rt)"
    and "rollover_inv rt td0 st" and "watermark rt st = Some w"
    and "valid_date (today c)" and "valid_tasks st"
  shows "(date_le w (today c) \<longrightarrow> rollover_inv rt (today c) (snd (serve rt c op st)))
         \<and> (date_lt (today c) w \<longrightarrow> check_rollover_and_archive rt c st = st)"
proof -
  have "rollover_inv rt (today c) (snd (serve rt c op st))" if le: "date_le w (today c)"
    using inv_serve[OF inv_after_catch_up[OF assms(1,2,3) le assms(4,5)]] .
  moreover have "check_rollover_and_archive rt c st = st" if "date_lt (today c) w"
    using catch_up_parsed(3)[OF assms(1,3,4,5)] date_lt_asym[OF that] by blast
  ultimately show ?thesis by blast
qed

theorem rollover_invariant_preserved_witness:
  "date_parser (fromisoformat ex_runtime)
   \<and> rollover_inv ex_runtime (Date 2024 1 10) (ex_store ''2024-01-10'')
   \<and> watermark ex_runtime (ex_store ''2024-01-10'') = Some (Date 2024 1 10)
   \<and> valid_date (today (ex_clock (Date 2024 1 13)))
   \<and> valid_tasks (ex_store ''2024-01-10'')
   \<and> date_le (Date 2024 1 10) (today (ex_clock (Date 2024 1 13)))
   \<and> rollover_inv ex_runtime (today (ex_clock (Date 2024 1 13)))
        (snd (serve ex_runtime (ex_clock (Date 2024 1 13)) Index (ex_store ''2024-01-10'')))"
proof -
  have h1: "rollover_inv ex_runtime (Date 2024 1 10) (ex_store ''2024-01-10'')"
    unfolding rollover_inv_def ex_watermark_10
    by (simp add: date_le_def ex_store_def ex_task_def date_lt_irrefl)
  have le: "date_le (Date 2024 1 10) (today (ex_clock (Date 2024 1 13)))"
    by (simp add: ex_clock_def date_le_def date_lt_def)
  from rollover_invariant_preserved[OF ex_parser h1 ex_watermark_10 ex_valid_today(3)
      ex_valid_tasks, of Index]
    ex_parser h1 ex_watermark_10 ex_valid_today(3) ex_valid_tasks le
  show ?thesis by blast
qed

section \<open>Three places where the routes part from the description\<close>

lemma ex_isoformat_10: "isoformat (Date 2024 1 10) = ''2024-01-10''"
  by (simp add: isoformat_def pad4_def pad2_def digit_char_def)

lemma ex_parse_10:
  assumes "date_parser (fromisoformat rt)"
  shows "fromisoformat rt ''2024-01-10'' = Some (Date 2024 1 10)"
proof -
  have "valid_date (Date 2024 1 10)"
    by (simp add: valid_date_def days_in_month_def)
  then have "fromisoformat rt (isoformat (Date 2024 1 10)) = Some (Date 2024 1 10)"
    using assms by (simp add: date_parser_def)
  then show ?thesis unfolding ex_isoformat_10 .
qed

lemma ex_catch_up_same_day:
  assumes "date_parser (fromisoformat rt)"
  shows "check_rollover_and_archive rt (ex_clock (Date 2024 1 10)) (ex_store ''2024-01-10'')
           = ex_store ''2024-01-10''"
  using ex_parse_10[OF assms]
  by (simp add: check_rollover_and_archive_def Setting_get_def ex_store_def ex_clock_def
        date_lt_irrefl)

text \<open>
  C7 (the day view). The day page lists every task of the day, archived or not: its
  query filters by \<open>task_date\<close> alone, where the week, month and year pages filter by
  \<open>archived\<close> first. On 2024-01-10, with the watermark of that day, the page of
  2024-01-10 shows T1, which is not archived.
\<close>

theorem archive_day_lists_unarchived:
  assumes "date_parser (fromisoformat rt)"
  shows "archive_day rt (ex_clock (Date 2024 1 10)) ''2024-01-10'' (ex_store ''2024-01-10'')
           = (Inr (ArchiveDayPage [ex_task] ''2024-01-10''), ex_store ''2024-01-10'')
         \<and> \<not> archived ex_task"
  unfolding archive_day_def ex_catch_up_same_day[OF assms]
  using ex_parse_10[OF assms]
  by (simp add: Let_def order_by_id_def ex_store_def ex_task_def)

theorem archive_day_lists_unarchived_witness:
  "archive_day ex_runtime (ex_clock (Date 2024 1 10)) ''2024-01-10'' (ex_store ''2024-01-10'')
     = (Inr (ArchiveDayPage [ex_task] ''2024-01-10''), ex_store ''2024-01-10'')
   \<and> \<not> archived ex_task"
  using archive_day_lists_unarchived[OF ex_parser] .

text \<open>
  C8. \<open>move_task\<close> converts \<open>data.get('column_index')\<close> with \<open>int\<close> before anything
  else and outside any \<open>try\<close>: a JSON object without that member ends the route with
  TypeError, whatever the store holds. A body that is JSON \<open>null\<close> ends it with
  AttributeError at \<open>data.get\<close>, and in \<open>add_task\<close> a column index that spells no
  integer ends the route with ValueError, before the title is looked at.
\<close>

theorem int_conversion_escapes:
  "move_task rt c \<lparr>json = JsonObject [(''id'', PInt 1)], form = []\<rparr> st
     = (Inl TypeError, check_rollover_and_archive rt c st)
   \<and> move_task rt c \<lparr>json = JsonNone, form = []\<rparr> st
     = (Inl AttributeError, check_rollover_and_archive rt c st)
   \<and> (int_of_str rt ''abc'' = None \<longrightarrow>
        add_task rt c
          \<lparr>json = JsonObject [(''title'', PStr ''T2''), (''column_index'', PStr ''abc'')],
           form = []\<rparr> st
        = (Inl ValueError, check_rollover_and_archive rt c st))"
  by (simp add: move_task_def add_task_def json_data_def json_or_form_def get_def
        get_default_def)

theorem int_conversion_escapes_witness:
  "move_task ex_runtime (ex_clock (Date 2024 1 10))
       \<lparr>json = JsonObject [(''id'', PInt 1)], form = []\<rparr> (ex_store ''2024-01-10'')
     = (Inl TypeError,
        check_rollover_and_archive ex_runtime (ex_clock (Date 2024 1 10))
          (ex_store ''2024-01-10''))
   \<and> move_task ex_runtime (ex_clock (Date 2024 1 10))
       \<lparr>json = JsonNone, form = []\<rparr> (ex_store ''2024-01-10'')
     = (Inl AttributeError,
        check_rollover_and_archive ex_runtime (ex_clock (Date 2024 1 10))
          (ex_store ''2024-01-10''))
   \<and> int_of_str ex_runtime ''abc'' = None
   \<and> add_task ex_runtime (ex_clock (Date 2024 1 10))
        \<lparr>json = JsonObject [(''title'', PStr ''T2''), (''column_index'', PStr ''abc'')],
         form = []\<rparr> (ex_store ''2024-01-10'')
      = (Inl ValueError,
         check_rollover_and_archive ex_runtime (ex_clock (Date 2024 1 10))
           (ex_store ''2024-01-10''))"
proof -
  have none: "int_of_str ex_runtime ''abc'' = None"
    by (simp add: ex_runtime_def decimal_def digit_val_def)
  from int_conversion_escapes[of ex_runtime "ex_clock (Date 2024 1 10)"
      "ex_store ''2024-01-10''"] none
  show ?thesis by blast
qed

text \<open>
  C9. \<open>edit_task\<close> stores the title of the request as it comes; the test \<open>if not title\<close>
  of \<open>add_task\<close> has no counterpart here. Editing T1 on its day with the empty string as
  title succeeds, and the table then holds T1 with an empty title.
\<close>

theorem edit_task_stores_empty_title:
  assumes "date_parser (fromisoformat rt)"
  shows "edit_task rt (ex_clock (Date 2024 1 10))
           \<lparr>json = JsonObject [(''id'', PInt 1), (''title'', PStr [])], form = []\<rparr>
           (ex_store ''2024-01-10'')
         = (Inr (TaskJson (to_dict (ex_task\<lparr>title := []\<rparr>))),
            (ex_store ''2024-01-10'')\<lparr>task_table := [ex_task\<lparr>title := []\<rparr>]\<rparr>)
         \<and> title ex_task \<noteq> []"
  unfolding edit_task_def ex_catch_up_same_day[OF assms]
  by (simp add: Let_def json_or_form_def get_def get_default_def Task_query_get_def
        sqlite_int_def update_task_def ex_store_def ex_task_def ex_clock_def)

theorem edit_task_stores_empty_title_witness:
  "edit_task ex_runtime (ex_clock (Date 2024 1 10))
     \<lparr>json = JsonObject [(''id'', PInt 1), (''title'', PStr [])], form = []\<rparr>
     (ex_store ''2024-01-10'')
   = (Inr (TaskJson (to_dict (ex_task\<lparr>title := []\<rparr>))),
      (ex_store ''2024-01-10'')\<lparr>task_table := [ex_task\<lparr>title := []\<rparr>]\<rparr>)
   \<and> title ex_task \<noteq> []"
  using edit_task_stores_empty_title[OF ex_parser] .

section \<open>The board of today\<close>

lemma under_setdefault_append:
  "tasks_under (setdefault_append m t) k
     = tasks_under m k @ (if column_index t = k then [t] else [])"
  by (simp add: tasks_under_def setdefault_append_def)

lemma under_foldl:
  "tasks_under (foldl setdefault_append m ts) k
     = tasks_under m k @ filter (\<lambda>t. column_index t = k) ts"
  by (induction ts arbitrary: m) (simp_all add: under_setdefault_append)

lemma under_group_by_col:
  "tasks_under (group_by_col n ts) k = filter (\<lambda>t. column_index t = k) ts"
  unfolding group_by_col_def under_foldl by (simp add: tasks_under_def)

lemma pad_cols_length: "length cols \<le> 5 \<Longrightarrow> length (pad_cols cols) = 5"
proof (induction cols rule: pad_cols.induct)
  case (1 cols)
  show ?case
  proof (cases "length cols < 5")
    case True
    then have "length (pad_cols (cols @ [''Column '' @ str_nat (length cols + 1)])) = 5"
      using "1.IH" by simp
    then show ?thesis using True by (subst pad_cols.simps) simp
  next
    case False
    then show ?thesis using "1.prems" by (subst pad_cols.simps) simp
  qed
qed

lemma columns_length: "length (columns st) = 5"
  unfolding columns_def Let_def by (rule pad_cols_length) simp

lemma order_by_id_filter:
  "filter P (order_by_id ts) = order_by_id (filter P ts)"
  by (simp add: order_by_id_def filter_sort)

lemma ex_catch_up_same_day_tasks:
  "check_rollover_and_archive ex_runtime (ex_clock (Date 2024 1 10))
     ((ex_store ''2024-01-10'')\<lparr>task_table := ts\<rparr>)
   = (ex_store ''2024-01-10'')\<lparr>task_table := ts\<rparr>"
proof -
  have "fromisoformat ex_runtime ''2024-01-10'' = Some (Date 2024 1 10)"
    by (simp add: ex_runtime_def strict_fromisoformat_def valid_date_def days_in_month_def
          digit_val_def)
  then show ?thesis
    by (simp add: check_rollover_and_archive_def Setting_get_def ex_store_def ex_clock_def
          date_lt_irrefl)
qed

text \<open>
  C10. The board, after the catch-up of the request: five column names, and under every
  column index exactly the tasks of today with that index, in the order of their ids,
  whether archived or not. So every task of today is on the board under its column.
\<close>

theorem index_lists_today:
  "\<exists>cols m.
     index rt c st
       = (Inr (IndexPage cols m (isoformat (today c))), check_rollover_and_archive rt c st)
     \<and> length cols = 5
     \<and> (\<forall>k. tasks_under m k
              = order_by_id (filter (\<lambda>t. task_date t = today c \<and> column_index t = k)
                  (task_table (check_rollover_and_archive rt c st))))
     \<and> (\<forall>t \<in> set (task_table (check_rollover_and_archive rt c st)).
           task_date t = today c \<longrightarrow> t \<in> set (tasks_under m (column_index t)))"
proof -
  let ?st1 = "check_rollover_and_archive rt c st"
  let ?ts = "order_by_id (filter (\<lambda>t. task_date t = today c) (task_table ?st1))"
  let ?m = "group_by_col (length (columns ?st1)) ?ts"
  have page: "index rt c st = (Inr (IndexPage (columns ?st1) ?m (isoformat (today c))), ?st1)"
    by (simp add: index_def Let_def)
  have under: "tasks_under ?m k
                 = order_by_id (filter (\<lambda>t. task_date t = today c \<and> column_index t = k)
                     (task_table ?st1))" for k
    unfolding under_group_by_col order_by_id_filter by (simp add: conj_commute)
  have shown: "t \<in> set (tasks_under ?m (column_index t))"
    if "t \<in> set (task_table ?st1)" "task_date t = today c" for t
    unfolding under using that by (simp add: order_by_id_def)
  from page columns_length[of ?st1] under shown show ?thesis by blast
qed

theorem index_lists_today_witness:
  "\<exists>cols m.
     index ex_runtime (ex_clock (Date 2024 1 10))
       ((ex_store ''2024-01-10'')\<lparr>task_table := [ex_task\<lparr>archived := True\<rparr>]\<rparr>)
       = (Inr (IndexPage cols m (isoformat (today (ex_clock (Date 2024 1 10))))),
          (ex_store ''2024-01-10'')\<lparr>task_table := [ex_task\<lparr>archived := True\<rparr>]\<rparr>)
     \<and> length cols = 5
     \<and> archived (ex_task\<lparr>archived := True\<rparr>)
     \<and> task_date (ex_task\<lparr>archived := True\<rparr>) = today (ex_clock (Date 2024 1 10))
     \<and> ex_task\<lparr>archived := True\<rparr> \<in> set (tasks_under m 0)"
proof -
  let ?c = "ex_clock (Date 2024 1 10)"
  let ?t = "ex_task\<lparr>archived := True\<rparr>"
  let ?st = "(ex_store ''2024-01-10'')\<lparr>task_table := [?t]\<rparr>"
  have same: "check_rollover_and_archive ex_runtime ?c ?st = ?st"
    by (rule ex_catch_up_same_day_tasks)
  have td: "task_date ?t = today ?c" by (simp add: ex_task_def ex_clock_def)
  have col: "column_index ?t = 0" by (simp add: ex_task_def)
  have mem: "?t \<in> set (task_table ?st)" by simp
  from index_lists_today[of ex_runtime ?c ?st] obtain cols m where
    page: "index ex_runtime ?c ?st = (Inr (IndexPage cols m (isoformat (today ?c))), ?st)"
    and len: "length cols = 5"
    and all: "\<forall>t \<in> set (task_table ?st). task_date t = today ?c
                \<longrightarrow> t \<in> set (tasks_under m (column_index t))"
    unfolding same by blast
  from all mem td have "?t \<in> set (tasks_under m (column_index ?t))" by blast
  then have "?t \<in> set (tasks_under m 0)" unfolding col .
  with page len td show ?thesis by auto
qed

section \<open>Creating a task\<close>







section \<open>The gating of move, edit and delete\<close>

lemma kept_refl: "kept td t t"
  by (simp add: kept_def)

lemma kept_trans: "kept td t'' t' \<Longrightarrow> kept td t' t \<Longrightarrow> kept td t'' t"
  by (auto simp: kept_def task_fields_def)

lemma kept_all_refl: "list_all2 (kept td) ts ts"
  by (simp add: list_all2_refl kept_refl)

lemma archive_day_tasks_kept:
  "d \<noteq> td \<Longrightarrow> list_all2 (kept td) (archive_day_tasks d now ts) ts"
  by (induction ts) (auto simp: archive_day_tasks_def kept_def task_fields_def)

lemma archive_loop_kept: "list_all2 (kept td) (archive_loop d td now ts) ts"
proof (induction d td now ts rule: archive_loop.induct)
  case (1 d td now ts)
  show ?case
  proof (cases "date_lt d td")
    case True
    then have ne: "d \<noteq> td" using date_lt_irrefl by blast
    have "list_all2 (kept td) (archive_loop (next_day d) td now (archive_day_tasks d now ts))
            (archive_day_tasks d now ts)"
      using "1.IH"[OF True] .
    from list_all2_trans[OF _ this archive_day_tasks_kept[OF ne]] kept_trans
    have "list_all2 (kept td) (archive_loop (next_day d) td now (archive_day_tasks d now ts)) ts"
      by blast
    then show ?thesis using True by (subst archive_loop.simps) simp
  next
    case False
    then show ?thesis by (subst archive_loop.simps) (simp add: kept_all_refl)
  qed
qed

lemma catch_up_kept:
  "list_all2 (kept (today c)) (task_table (check_rollover_and_archive rt c st)) (task_table st)"
  by (simp add: check_rollover_and_archive_def Setting_set_def kept_all_refl archive_loop_kept
        split: option.splits)

lemma catch_up_fields:
  "map task_fields (task_table (check_rollover_and_archive rt c st))
     = map task_fields (task_table st)"
proof -
  have "list_all2 (kept td) xs ys \<Longrightarrow> map task_fields xs = map task_fields ys" for td xs ys
    by (induction rule: list_all2_induct) (simp_all add: kept_def)
  then show ?thesis using catch_up_kept by blast
qed

lemma find_kept:
  "list_all2 (kept td) xs ys \<Longrightarrow>
   rel_option (kept td) (find (\<lambda>t. task_id t = n) xs) (find (\<lambda>t. task_id t = n) ys)"
  by (induction rule: list_all2_induct) (auto simp: kept_def task_fields_def)

lemma gate_same:
  assumes "list_all2 (kept td) xs ys"
  shows "find (\<lambda>t. task_id t = n) xs = None \<longleftrightarrow> find (\<lambda>t. task_id t = n) ys = None"
    and "(\<exists>t. find (\<lambda>t. task_id t = n) xs = Some t \<and> (task_date t \<noteq> td \<or> archived t))
         \<longleftrightarrow> (\<exists>t. find (\<lambda>t. task_id t = n) ys = Some t \<and> (task_date t \<noteq> td \<or> archived t))"
proof -
  note rel = find_kept[OF assms, of n]
  show "find (\<lambda>t. task_id t = n) xs = None \<longleftrightarrow> find (\<lambda>t. task_id t = n) ys = None"
    using rel by (cases "find (\<lambda>t. task_id t = n) xs"; cases "find (\<lambda>t. task_id t = n) ys") auto
  show "(\<exists>t. find (\<lambda>t. task_id t = n) xs = Some t \<and> (task_date t \<noteq> td \<or> archived t))
         \<longleftrightarrow> (\<exists>t. find (\<lambda>t. task_id t = n) ys = Some t \<and> (task_date t \<noteq> td \<or> archived t))"
    using rel
    by (cases "find (\<lambda>t. task_id t = n) xs"; cases "find (\<lambda>t. task_id t = n) ys")
       (auto simp: kept_def task_fields_def)
qed

lemma query_get_int:
  assumes "sqlite_int n"
  shows "Task_query_get rt (PInt n) ts = Inr (find (\<lambda>t. task_id t = n) ts)"
proof -
  have k: "key_matches rt (PInt n) i = (i = n)" for i by auto
  show ?thesis unfolding Task_query_get_def k using assms by simp
qed

lemma object_data:
  assumes "json r = JsonObject d" and "get d ''id'' = PInt n"
  shows "json_data r = Inr d" and "json_or_form r = Inr d"
proof -
  have "d \<noteq> []" using assms(2) by (auto simp: get_def get_default_def)
  then show "json_or_form r = Inr d" using assms(1) by (simp add: json_or_form_def)
  show "json_data r = Inr d" using assms(1) by (simp add: json_data_def)
qed

lemma move_task_gate:
  assumes "json r = JsonObject d" and "get d ''id'' = PInt n" and "sqlite_int n"
    and "py_int rt (get d ''column_index'') = Inr col"
  shows "(fst (move_task rt c r st) = NotFound
            \<longleftrightarrow> find (\<lambda>t. task_id t = n) (task_table (check_rollover_and_archive rt c st)) = None)
       \<and> (fst (move_task rt c r st) \<in> NotEditable
            \<longleftrightarrow> (\<exists>t. find (\<lambda>t. task_id t = n) (task_table (check_rollover_and_archive rt c st))
                        = Some t \<and> (task_date t \<noteq> today c \<or> archived t)))
       \<and> (fst (move_task rt c r st) = NotFound \<or> fst (move_task rt c r st) \<in> NotEditable
            \<longrightarrow> snd (move_task rt c r st) = check_rollover_and_archive rt c st)"
  by (cases "find (\<lambda>t. task_id t = n) (task_table (check_rollover_and_archive rt c st))")
     (simp_all add: move_task_def Let_def object_data(1)[OF assms(1,2)] assms(2,4)
        query_get_int[OF assms(3)] NotFound_def NotEditable_def)

lemma edit_task_gate:
  assumes "json r = JsonObject d" and "get d ''id'' = PInt n" and "sqlite_int n"
  shows "(fst (edit_task rt c r st) = NotFound
            \<longleftrightarrow> find (\<lambda>t. task_id t = n) (task_table (check_rollover_and_archive rt c st)) = None)
       \<and> (fst (edit_task rt c r st) \<in> NotEditable
            \<longleftrightarrow> (\<exists>t. find (\<lambda>t. task_id t = n) (task_table (check_rollover_and_archive rt c st))
                        = Some t \<and> (task_date t \<noteq> today c \<or> archived t)))
       \<and> (fst (edit_task rt c r st) = NotFound \<or> fst (edit_task rt c r st) \<in> NotEditable
            \<longrightarrow> snd (edit_task rt c r st) = check_rollover_and_archive rt c st)"
  by (cases "find (\<lambda>t. task_id t = n) (task_table (check_rollover_and_archive rt c st))")
     (simp_all add: edit_task_def Let_def object_data(2)[OF assms(1,2)] assms(2)
        query_get_int[OF assms(3)] NotFound_def NotEditable_def split: option.splits)

lemma delete_task_gate:
  assumes "json r = JsonObject d" and "get d ''id'' = PInt n" and "sqlite_int n"
  shows "(fst (delete_task rt c r st) = NotFound
            \<longleftrightarrow> find (\<lambda>t. task_id t = n) (task_table (check_rollover_and_archive rt c st)) = None)
       \<and> (fst (delete_task rt c r st) \<in> NotEditable
            \<longleftrightarrow> (\<exists>t. find (\<lambda>t. task_id t = n) (task_table (check_rollover_and_archive rt c st))
                        = Some t \<and> (task_date t \<noteq> today c \<or> archived t)))
       \<and> (fst (delete_task rt c r st) = NotFound \<or> fst (delete_task rt c r st) \<in> NotEditable
            \<longrightarrow> snd (delete_task rt c r st) = check_rollover_and_archive rt c st)"
  by (cases "find (\<lambda>t. task_id t = n) (task_table (check_rollover_and_archive rt c st))")
     (simp_all add: delete_task_def Let_def object_data(2)[OF assms(1,2)] assms(2)
        query_get_int[OF assms(3)] NotFound_def NotEditable_def)

text \<open>
  C3. A request to move, edit or delete that names the task by an integer id \<open>n\<close> (of the
  64 bits of the id column; a move also gives a column index that \<open>int\<close> converts) is
  answered "task not found" exactly when the table holds no task with that id, and
  with the route's "not editable" exactly when the task with that id is not of today or
  is archived. After either answer the store is the one the catch-up of the request left,
  so the rejected operation wrote nothing, and every task has the id, title, description,
  column index, creation time and day that it had before the request.
\<close>

theorem gate_rejections:
  assumes "op \<in> {MoveTask r, EditTask r, DeleteTask r}"
    and "json r = JsonObject d" and "get d ''id'' = PInt n" and "sqlite_int n"
    and "op = MoveTask r \<longrightarrow> py_int rt (get d ''column_index'') = Inr col"
  shows "(fst (serve rt c op st) = NotFound \<longleftrightarrow> n \<notin> task_id ` set (task_table st))
       \<and> (fst (serve rt c op st) \<in> NotEditable
            \<longleftrightarrow> (\<exists>t. find (\<lambda>t. task_id t = n) (task_table st) = Some t
                     \<and> (task_date t \<noteq> today c \<or> archived t)))
       \<and> (fst (serve rt c op st) = NotFound \<or> fst (serve rt c op st) \<in> NotEditable
            \<longrightarrow> snd (serve rt c op st) = check_rollover_and_archive rt c st
                \<and> map task_fields (task_table (snd (serve rt c op st)))
                    = map task_fields (task_table st))"
proof -
  let ?st1 = "check_rollover_and_archive rt c st"
  let ?res = "serve rt c op st"
  have gate: "(fst ?res = NotFound
                 \<longleftrightarrow> find (\<lambda>t. task_id t = n) (task_table ?st1) = None)
            \<and> (fst ?res \<in> NotEditable
                 \<longleftrightarrow> (\<exists>t. find (\<lambda>t. task_id t = n) (task_table ?st1) = Some t
                          \<and> (task_date t \<noteq> today c \<or> archived t)))
            \<and> (fst ?res = NotFound \<or> fst ?res \<in> NotEditable \<longrightarrow> snd ?res = ?st1)"
  proof -
    from assms(1) consider "op = MoveTask r" | "op = EditTask r" | "op = DeleteTask r"
      by blast
    then show ?thesis
    proof cases
      case 1
      with assms(5) have "py_int rt (get d ''column_index'') = Inr col" by blast
      from move_task_gate[OF assms(2,3,4) this, of c st] 1 show ?thesis by simp
    next
      case 2
      from edit_task_gate[OF assms(2,3,4), of rt c st] 2 show ?thesis by simp
    next
      case 3
      from delete_task_gate[OF assms(2,3,4), of rt c st] 3 show ?thesis by simp
    qed
  qed
  note same = gate_same[OF catch_up_kept[of c rt st], of n]
  have none: "find (\<lambda>t. task_id t = n) (task_table st) = None
                \<longleftrightarrow> n \<notin> task_id ` set (task_table st)"
    by (auto simp: find_None_iff)
  have g1: "fst ?res = NotFound
               \<longleftrightarrow> find (\<lambda>t. task_id t = n) (task_table ?st1) = None"
    using gate by (rule conjunct1)
  have g2: "fst ?res \<in> NotEditable
               \<longleftrightarrow> (\<exists>t. find (\<lambda>t. task_id t = n) (task_table ?st1) = Some t
                        \<and> (task_date t \<noteq> today c \<or> archived t))"
    using gate by (rule conjunct1[OF conjunct2])
  have g3: "fst ?res = NotFound \<or> fst ?res \<in> NotEditable \<longrightarrow> snd ?res = ?st1"
    using gate by (rule conjunct2[OF conjunct2])
  have A: "fst ?res = NotFound \<longleftrightarrow> n \<notin> task_id ` set (task_table st)"
    by (simp only: g1 same(1) none)
  have B: "fst ?res \<in> NotEditable
            \<longleftrightarrow> (\<exists>t. find (\<lambda>t. task_id t = n) (task_table st) = Some t
                     \<and> (task_date t \<noteq> today c \<or> archived t))"
    by (simp only: g2 same(2))
  have C: "fst ?res = NotFound \<or> fst ?res \<in> NotEditable
            \<longrightarrow> snd ?res = ?st1
                \<and> map task_fields (task_table (snd ?res)) = map task_fields (task_table st)"
  proof
    assume "fst ?res = NotFound \<or> fst ?res \<in> NotEditable"
    with g3 have "snd ?res = ?st1" by (rule mp)
    then show "snd ?res = ?st1
           \<and> map task_fields (task_table (snd ?res)) = map task_fields (task_table st)"
      using catch_up_fields[of rt c st] by simp
  qed
  from A B C show ?thesis by (intro conjI)
qed

theorem gate_rejections_witness:
  "MoveTask \<lparr>json = JsonObject [(''id'', PInt 1), (''column_index'', PInt 3)], form = []\<rparr>
     \<in> {MoveTask \<lparr>json = JsonObject [(''id'', PInt 1), (''column_index'', PInt 3)], form = []\<rparr>,
         EditTask \<lparr>json = JsonObject [(''id'', PInt 1), (''column_index'', PInt 3)], form = []\<rparr>,
         DeleteTask \<lparr>json = JsonObject [(''id'', PInt 1), (''column_index'', PInt 3)],
                     form = []\<rparr>}
   \<and> get [(''id'', PInt 1), (''column_index'', PInt 3)] ''id'' = PInt 1
   \<and> sqlite_int 1
   \<and> py_int ex_runtime (get [(''id'', PInt 1), (''column_index'', PInt 3)] ''column_index'')
       = Inr 3
   \<and> find (\<lambda>t. task_id t = 1) (task_table (ex_store ''2024-01-10'')) = Some ex_task
   \<and> task_date ex_task \<noteq> today (ex_clock (Date 2024 1 11))
   \<and> fst (serve ex_runtime (ex_clock (Date 2024 1 11))
            (MoveTask \<lparr>json = JsonObject [(''id'', PInt 1), (''column_index'', PInt 3)],
                       form = []\<rparr>)
            (ex_store ''2024-01-10'')) \<in> NotEditable
   \<and> snd (serve ex_runtime (ex_clock (Date 2024 1 11))
            (MoveTask \<lparr>json = JsonObject [(''id'', PInt 1), (''column_index'', PInt 3)],
                       form = []\<rparr>)
            (ex_store ''2024-01-10''))
       = check_rollover_and_archive ex_runtime (ex_clock (Date 2024 1 11))
           (ex_store ''2024-01-10'')
   \<and> map task_fields (task_table (snd (serve ex_runtime (ex_clock (Date 2024 1 11))
            (MoveTask \<lparr>json = JsonObject [(''id'', PInt 1), (''column_index'', PInt 3)],
                       form = []\<rparr>)
            (ex_store ''2024-01-10''))))
       = [task_fields ex_task]"
proof -
  let ?d = "[(''id'', PInt 1), (''column_index'', PInt 3)]"
  let ?r = "\<lparr>json = JsonObject ?d, form = []\<rparr>"
  let ?c = "ex_clock (Date 2024 1 11)"
  let ?st = "ex_store ''2024-01-10''"
  have h1: "MoveTask ?r \<in> {MoveTask ?r, EditTask ?r, DeleteTask ?r}" by simp
  have h2: "json ?r = JsonObject ?d" by simp
  have h3: "get ?d ''id'' = PInt 1" by (simp add: get_def get_default_def)
  have h4: "sqlite_int 1" by (simp add: sqlite_int_def)
  have col: "py_int ex_runtime (get ?d ''column_index'') = Inr 3"
    by (simp add: get_def get_default_def)
  then have h5: "MoveTask ?r = MoveTask ?r \<longrightarrow> py_int ex_runtime (get ?d ''column_index'') = Inr 3"
    by blast
  have fnd: "find (\<lambda>t. task_id t = 1) (task_table ?st) = Some ex_task"
    by (simp add: ex_store_def ex_task_def)
  have day: "task_date ex_task \<noteq> today ?c"
    by (simp add: ex_task_def ex_clock_def)
  have tbl: "map task_fields (task_table ?st) = [task_fields ex_task]"
    by (simp add: ex_store_def)
  note inst = gate_rejections[OF h1 h2 h3 h4 h5, of ?c ?st]
  from inst fnd day have rej: "fst (serve ex_runtime ?c (MoveTask ?r) ?st) \<in> NotEditable"
    by blast
  with inst have
    "snd (serve ex_runtime ?c (MoveTask ?r) ?st) = check_rollover_and_archive ex_runtime ?c ?st"
    "map task_fields (task_table (snd (serve ex_runtime ?c (MoveTask ?r) ?st)))
       = map task_fields (task_table ?st)"
    by blast+
  with h1 h3 h4 col fnd day rej tbl show ?thesis by simp
qed

end
